theory Spec2Isabelle
  imports Complex_Main "HOL-Library.Log_Nat" "HOL-Library.Monad_Syntax"
begin

section \<open>Python values\<close>

text \<open>
  The harvesting engine of \<^verbatim>\<open>automate_vitals.py\<close> is the closure \<^verbatim>\<open>handle_response\<close>
  inside \<^verbatim>\<open>collect_app_data\<close>, and the navigation sequence that follows it. The
  handler reads vendor JSON with \<^verbatim>\<open>.get\<close>, \<^verbatim>\<open>[0]\<close>, \<^verbatim>\<open>int()\<close>, \<^verbatim>\<open>float()\<close> and
  \<^verbatim>\<open>round()\<close>, inside \<^verbatim>\<open>try\<close> blocks that catch every \<^verbatim>\<open>Exception\<close>. The model
  therefore keeps the payloads as untyped JSON values and gives each Python operation
  the result type \<open>'a option\<close>, where \<open>None\<close> says that the operation raises.
\<close>

subsection \<open>Floats: binary64 with round-to-nearest-even\<close>

text \<open>
  A Python float is an IEEE 754 binary64 number. A finite one is kept as the rational
  it denotes; the two zeros are not distinguished. \<open>b64\<close> rounds a rational to the
  nearest binary64 number, ties to even, with subnormals below \<open>2 powi (- 1022)\<close> and
  overflow to an infinity from \<open>2 ^ 1024\<close> on.
\<close>

datatype pyfloat = Fin rat | PInf | NInf | NaN

definition ilog2 :: "rat \<Rightarrow> int" where
  "ilog2 x = (case quotient_of x of (p, q) \<Rightarrow>
     let e = bitlen p - bitlen q in if 2 powi e \<le> x then e else e - 1)"

definition round_half_even :: "rat \<Rightarrow> int" where
  "round_half_even x = (let f = \<lfloor>x\<rfloor>; d = x - of_int f in
     if d < 1 / 2 then f else if 1 / 2 < d then f + 1 else if even f then f else f + 1)"

definition b64 :: "rat \<Rightarrow> pyfloat" where
  "b64 x = (if x = 0 then Fin 0 else
     let e = max (ilog2 \<bar>x\<bar> - 52) (- 1074);
         y = of_int (round_half_even (x / 2 powi e)) * 2 powi e
     in if 2 ^ 1024 \<le> \<bar>y\<bar> then (if 0 < x then PInf else NInf) else Fin y)"

fun fsgn :: "pyfloat \<Rightarrow> int" where
  "fsgn (Fin a) = (if a < 0 then - 1 else if a = 0 then 0 else 1)"
| "fsgn PInf = 1"
| "fsgn NInf = - 1"
| "fsgn NaN = 0"

text \<open>\<^verbatim>\<open>x * y\<close> on floats: overflow gives an infinity, never an exception.\<close>

fun fmul :: "pyfloat \<Rightarrow> pyfloat \<Rightarrow> pyfloat" where
  "fmul (Fin a) (Fin b) = b64 (a * b)"
| "fmul x y = (if x = NaN \<or> y = NaN \<or> fsgn x * fsgn y = 0 then NaN
               else if 0 < fsgn x * fsgn y then PInf else NInf)"

text \<open>\<^verbatim>\<open>x + y\<close> on floats.\<close>

fun fadd :: "pyfloat \<Rightarrow> pyfloat \<Rightarrow> pyfloat" where
  "fadd (Fin a) (Fin b) = b64 (a + b)"
| "fadd NaN y = NaN"
| "fadd x NaN = NaN"
| "fadd PInf NInf = NaN"
| "fadd NInf PInf = NaN"
| "fadd PInf y = PInf"
| "fadd NInf y = NInf"
| "fadd (Fin a) y = y"

text \<open>\<^verbatim>\<open>x / y\<close> on floats: a zero divisor raises \<^verbatim>\<open>ZeroDivisionError\<close>.\<close>

fun fdiv :: "pyfloat \<Rightarrow> pyfloat \<Rightarrow> pyfloat option" where
  "fdiv x (Fin b) = (if b = 0 then None else
     (case x of Fin a \<Rightarrow> Some (b64 (a / b))
      | NaN \<Rightarrow> Some NaN
      | _ \<Rightarrow> Some (if 0 < fsgn x * fsgn (Fin b) then PInf else NInf)))"
| "fdiv x NaN = Some NaN"
| "fdiv (Fin a) y = Some (Fin 0)"
| "fdiv x y = Some NaN"

text \<open>
  \<^verbatim>\<open>a / b\<close> on two ints is the correctly rounded quotient; it raises
  \<^verbatim>\<open>ZeroDivisionError\<close> for \<open>b = 0\<close> and \<^verbatim>\<open>OverflowError\<close> when the quotient is too large.
\<close>

definition int_truediv :: "int \<Rightarrow> int \<Rightarrow> pyfloat option" where
  "int_truediv a b = (if b = 0 then None else
     (case b64 (of_int a / of_int b) of Fin y \<Rightarrow> Some (Fin y) | _ \<Rightarrow> None))"

text \<open>\<^verbatim>\<open>float(i)\<close> of an int: \<^verbatim>\<open>OverflowError\<close> when it is too large.\<close>

definition float_of_int :: "int \<Rightarrow> pyfloat option" where
  "float_of_int i = (case b64 (of_int i) of Fin y \<Rightarrow> Some (Fin y) | _ \<Rightarrow> None)"

text \<open>\<^verbatim>\<open>int(x)\<close> of a float truncates towards zero and raises on infinities and NaN.\<close>

fun int_of_float :: "pyfloat \<Rightarrow> int option" where
  "int_of_float (Fin a) = Some (if 0 \<le> a then \<lfloor>a\<rfloor> else \<lceil>a\<rceil>)"
| "int_of_float x = None"

text \<open>
  \<^verbatim>\<open>round(x, 2)\<close> of a float: the exact value of \<open>x\<close> is rounded to two decimals, ties to
  even, and the decimal is converted back to the nearest float. Infinities and NaN
  round to themselves.
\<close>

fun round2 :: "pyfloat \<Rightarrow> pyfloat" where
  "round2 (Fin a) = b64 (of_int (round_half_even (a * 100)) / 100)"
| "round2 x = x"

text \<open>\<^verbatim>\<open>x < y\<close> on floats: every comparison with NaN is false.\<close>

fun flt :: "pyfloat \<Rightarrow> pyfloat \<Rightarrow> bool" where
  "flt (Fin a) (Fin b) = (a < b)"
| "flt NaN y = False"
| "flt x NaN = False"
| "flt NInf y = (y \<noteq> NInf)"
| "flt x PInf = (x \<noteq> PInf)"
| "flt x y = False"

subsection \<open>JSON values and the operations the handler applies to them\<close>

text \<open>
  A decoded payload. \<open>JObj\<close> lists the items of a \<^verbatim>\<open>dict\<close> in insertion order (the keys
  of a decoded object are distinct strings); \<open>JNull\<close> is \<^verbatim>\<open>None\<close>.
\<close>

datatype json =
    JNull
  | JBool bool
  | JInt int
  | JFloat pyfloat
  | JStr string
  | JArr "json list"
  | JObj "(string \<times> json) list"

fun py_truthy :: "json \<Rightarrow> bool" where
  "py_truthy JNull = False"
| "py_truthy (JBool b) = b"
| "py_truthy (JInt i) = (i \<noteq> 0)"
| "py_truthy (JFloat f) = (f \<noteq> Fin 0)"
| "py_truthy (JStr s) = (s \<noteq> [])"
| "py_truthy (JArr xs) = (xs \<noteq> [])"
| "py_truthy (JObj kvs) = (kvs \<noteq> [])"

text \<open>\<^verbatim>\<open>x.get(k, d)\<close>: only a \<^verbatim>\<open>dict\<close> has \<^verbatim>\<open>get\<close>.\<close>

fun py_get :: "json \<Rightarrow> string \<Rightarrow> json \<Rightarrow> json option" where
  "py_get (JObj kvs) k d = Some (case map_of kvs k of None \<Rightarrow> d | Some v \<Rightarrow> v)"
| "py_get x k d = None"

text \<open>\<^verbatim>\<open>x["k"]\<close>: \<^verbatim>\<open>KeyError\<close> on a missing key, \<^verbatim>\<open>TypeError\<close> on anything but a \<^verbatim>\<open>dict\<close>.\<close>

fun py_subscript :: "json \<Rightarrow> string \<Rightarrow> json option" where
  "py_subscript (JObj kvs) k = map_of kvs k"
| "py_subscript x k = None"

text \<open>
  \<^verbatim>\<open>x[i]\<close> for a literal \<open>i \<ge> 0\<close>: lists and strings are indexed (\<^verbatim>\<open>IndexError\<close> out of
  range), a \<^verbatim>\<open>dict\<close> of string keys has no key \<open>i\<close>, the rest is not subscriptable.
\<close>

fun py_index :: "json \<Rightarrow> nat \<Rightarrow> json option" where
  "py_index (JArr xs) i = (if i < length xs then Some (xs ! i) else None)"
| "py_index (JStr s) i = (if i < length s then Some (JStr [s ! i]) else None)"
| "py_index x i = None"

fun py_len :: "json \<Rightarrow> nat option" where
  "py_len (JArr xs) = Some (length xs)"
| "py_len (JStr s) = Some (length s)"
| "py_len (JObj kvs) = Some (length kvs)"
| "py_len x = None"

text \<open>\<^verbatim>\<open>for v in x\<close>: the elements of a list, the characters of a string, the keys of a \<^verbatim>\<open>dict\<close>.\<close>

fun py_iter :: "json \<Rightarrow> json list option" where
  "py_iter (JArr xs) = Some xs"
| "py_iter (JStr s) = Some (map (\<lambda>c. JStr [c]) s)"
| "py_iter (JObj kvs) = Some (map (\<lambda>kv. JStr (fst kv)) kvs)"
| "py_iter x = None"

text \<open>
  What the standard library decides is a parameter of the model: the text parsers behind
  \<^verbatim>\<open>int(str)\<close>, \<^verbatim>\<open>float(str)\<close>, \<^verbatim>\<open>json.loads\<close> and \<^verbatim>\<open>datetime.fromisoformat(s).date()\<close>
  (the date as a day number), each with \<open>None\<close> for a raised exception, and \<^verbatim>\<open>str(x)\<close>.
\<close>

record pylib =
  int_of_str :: "string \<Rightarrow> int option"
  float_of_str :: "string \<Rightarrow> pyfloat option"
  json_loads :: "string \<Rightarrow> json option"
  fromisoformat_date :: "string \<Rightarrow> int option"
  str_of :: "json \<Rightarrow> string"

fun py_int :: "pylib \<Rightarrow> json \<Rightarrow> int option" where
  "py_int L (JInt i) = Some i"
| "py_int L (JBool b) = Some (if b then 1 else 0)"
| "py_int L (JFloat f) = int_of_float f"
| "py_int L (JStr s) = int_of_str L s"
| "py_int L x = None"

fun py_float :: "pylib \<Rightarrow> json \<Rightarrow> pyfloat option" where
  "py_float L (JFloat f) = Some f"
| "py_float L (JInt i) = float_of_int i"
| "py_float L (JBool b) = Some (Fin (if b then 1 else 0))"
| "py_float L (JStr s) = float_of_str L s"
| "py_float L x = None"

text \<open>\<^verbatim>\<open>needle in hay\<close> on strings; \<^verbatim>\<open>re.search\<close> with a pattern of literal characters is the same test.\<close>

fun contains :: "string \<Rightarrow> string \<Rightarrow> bool" where
  "contains needle [] = (needle = [])"
| "contains needle (c # cs) = (take (length needle) (c # cs) = needle \<or> contains needle cs)"

subsection \<open>Dictionaries keyed by payload values\<close>

text \<open>
  The grouping loops use payload values as \<^verbatim>\<open>dict\<close> keys. Lists and dicts are unhashable
  (\<^verbatim>\<open>TypeError\<close>); \<^verbatim>\<open>True\<close>, \<^verbatim>\<open>1\<close> and \<^verbatim>\<open>1.0\<close> are one key; a NaN equals nothing.
\<close>

fun hashable :: "json \<Rightarrow> bool" where
  "hashable (JArr xs) = False"
| "hashable (JObj kvs) = False"
| "hashable x = True"

fun num_value :: "json \<Rightarrow> pyfloat option" where
  "num_value (JBool b) = Some (Fin (if b then 1 else 0))"
| "num_value (JInt i) = Some (Fin (of_int i))"
| "num_value (JFloat f) = Some f"
| "num_value x = None"

definition key_eq :: "json \<Rightarrow> json \<Rightarrow> bool" where
  "key_eq a b = (case (num_value a, num_value b) of
       (Some x, Some y) \<Rightarrow> x = y \<and> x \<noteq> NaN
     | (None, None) \<Rightarrow> a = b
     | _ \<Rightarrow> False)"

text \<open>
  \<^verbatim>\<open>if k in d: d[k] = f(d[k]) else: d[k] = v\<close> on an insertion-ordered \<^verbatim>\<open>dict\<close>: a known
  key keeps its place, a new key goes last.
\<close>

fun dict_upsert :: "('k \<Rightarrow> 'k \<Rightarrow> bool) \<Rightarrow> 'k \<Rightarrow> ('v \<Rightarrow> 'v) \<Rightarrow> 'v \<Rightarrow> ('k \<times> 'v) list \<Rightarrow> ('k \<times> 'v) list" where
  "dict_upsert eq k f v [] = [(k, v)]"
| "dict_upsert eq k f v (kv # d) =
     (if eq (fst kv) k then (fst kv, f (snd kv)) # d else kv # dict_upsert eq k f v d)"

subsection \<open>\<^verbatim>\<open>sorted(xs, key=..., reverse=True)\<close>\<close>

text \<open>
  Python's sort decides the order by \<^verbatim>\<open><\<close> on the keys and is stable, also with
  \<^verbatim>\<open>reverse=True\<close>: the result is descending and elements with equal keys keep their
  order in \<open>xs\<close>. The model inserts the elements from left to right, each behind all
  elements that are not smaller. (With a NaN among the keys \<^verbatim>\<open><\<close> is no order and
  CPython's result depends on its sorting algorithm; no statement below is about that case.)
\<close>

fun insort_desc :: "('k \<Rightarrow> 'k \<Rightarrow> bool) \<Rightarrow> ('a \<Rightarrow> 'k) \<Rightarrow> 'a \<Rightarrow> 'a list \<Rightarrow> 'a list" where
  "insort_desc lt key x [] = [x]"
| "insort_desc lt key x (y # ys) =
     (if lt (key y) (key x) then x # y # ys else y # insort_desc lt key x ys)"

definition sorted_reverse :: "('k \<Rightarrow> 'k \<Rightarrow> bool) \<Rightarrow> ('a \<Rightarrow> 'k) \<Rightarrow> 'a list \<Rightarrow> 'a list" where
  "sorted_reverse lt key xs = foldl (\<lambda>acc x. insort_desc lt key x acc) [] xs"


section \<open>The closure state of \<^verbatim>\<open>collect_app_data\<close>\<close>

text \<open>The values of \<^verbatim>\<open>current_phase\<close>; \<open>Up_anrs\<close> is the Play-console ANR phase.\<close>

datatype phase =
    Metrics | Crashes | Non_fatals | Anr_metrics | Anrs
  | Ios_metrics | Ios_crashes | Ios_non_fatals
  | Up_anrs | Ios_dominant_release | Android_dominant_release | Android_p90_launch

text \<open>\<^verbatim>\<open>current_phase.startswith("ios")\<close>\<close>

fun starts_with_ios :: "phase \<Rightarrow> bool" where
  "starts_with_ios Ios_metrics = True"
| "starts_with_ios Ios_crashes = True"
| "starts_with_ios Ios_non_fatals = True"
| "starts_with_ios Ios_dominant_release = True"
| "starts_with_ios p = False"

text \<open>An entry of \<^verbatim>\<open>top_crashes\<close>, \<^verbatim>\<open>top_non_fatals\<close> or \<^verbatim>\<open>all_anrs\<close>.\<close>

record issue_data =
  rank :: nat
  name :: json
  impact_percentage :: int
  impacted_devices :: int
  events :: int

text \<open>
  An entry of \<^verbatim>\<open>up_anrs\<close>, with the keys \<^verbatim>\<open>name\<close>, \<^verbatim>\<open>impact_percentage\<close>,
  \<^verbatim>\<open>affected_users\<close> and \<^verbatim>\<open>events\<close> (prefixed here, since field names are global).
\<close>

record anr_item =
  anr_name :: json
  anr_impact_percentage :: pyfloat
  anr_affected_users :: int
  anr_events :: int

record android_data =
  crash_free_rates :: "string \<rightharpoonup> json"
  total_installs :: "string \<rightharpoonup> int"
  top_crashes :: "issue_data list"
  top_non_fatals :: "issue_data list"
  all_anrs :: "issue_data list"
  up_anrs :: "anr_item list"
  p90_launch_time_seconds :: "pyfloat option"
  dominant_release :: "json option"

text \<open>\<^verbatim>\<open>app_data["ios"]\<close>; the fields carry the prefix \<open>ios_\<close>.\<close>

record ios_data =
  ios_crash_free_rates :: "string \<rightharpoonup> json"
  ios_total_installs :: "string \<rightharpoonup> int"
  ios_top_crashes :: "issue_data list"
  ios_top_non_fatals :: "issue_data list"
  ios_dominant_release :: "json option"

record app_data =
  app_key :: string
  app_name :: string
  android :: android_data
  ios :: ios_data
  google_play_vitals :: "json option"

text \<open>The variables that \<^verbatim>\<open>handle_response\<close> shares with \<^verbatim>\<open>collect_app_data\<close>.\<close>

record closure =
  metrics_requests :: "string list"
  metrics_captured :: bool
  fatal_installs :: int
  non_fatal_installs :: int
  anr_installs :: int
  ios_fatal_installs :: int
  ios_non_fatal_installs :: int
  crashes_captured :: bool
  non_fatals_captured :: bool
  anr_metrics_captured :: bool
  ios_metrics_captured :: bool
  ios_crashes_captured :: bool
  ios_non_fatals_captured :: bool
  ios_crash_free_rate_captured :: bool
  play_console_anrs_captured :: bool
  ios_dominant_release_captured :: bool
  android_dominant_release_captured :: bool
  android_p90_launch_captured :: bool
  ios_nonfatal_issues_processed :: bool
  current_phase :: phase
  data :: app_data

definition upd_android :: "(android_data \<Rightarrow> android_data) \<Rightarrow> closure \<Rightarrow> closure" where
  "upd_android f s = s\<lparr>data := (data s)\<lparr>android := f (android (data s))\<rparr>\<rparr>"

definition upd_ios :: "(ios_data \<Rightarrow> ios_data) \<Rightarrow> closure \<Rightarrow> closure" where
  "upd_ios f s = s\<lparr>data := (data s)\<lparr>ios := f (ios (data s))\<rparr>\<rparr>"

text \<open>
  A network response as the handler sees it: the URL, the POST body of its request
  (\<open>None\<close> for \<^verbatim>\<open>None\<close>), and what \<^verbatim>\<open>await response.json()\<close> and \<^verbatim>\<open>await response.text()\<close>
  give (\<open>None\<close> when they raise).
\<close>

record response =
  url :: string
  post_data :: "string option"
  resp_json :: "json option"
  resp_text :: "string option"

section \<open>\<^verbatim>\<open>is_valid_date_range\<close>\<close>

text \<open>\<^verbatim>\<open>s.replace('Z', '+00:00')\<close>\<close>

definition replace_Z :: "string \<Rightarrow> string" where
  "replace_Z s = concat (map (\<lambda>c. if c = CHR ''Z'' then ''+00:00'' else [c]) s)"

text \<open>
  \<^verbatim>\<open>datetime.fromisoformat(x.replace('Z', '+00:00')).date()\<close>; only a string has
  \<^verbatim>\<open>replace\<close>.
\<close>

fun parse_date :: "pylib \<Rightarrow> json \<Rightarrow> int option" where
  "parse_date L (JStr s) = fromisoformat_date L (replace_Z s)"
| "parse_date L x = None"

text \<open>
  \<open>days\<close> is the global \<^verbatim>\<open>DATE_RANGE_DAYS\<close> and \<open>today\<close> the date of \<^verbatim>\<open>datetime.now()\<close>
  as a day number. The bare \<^verbatim>\<open>except\<close> turns every exception into \<^verbatim>\<open>False\<close>.
\<close>

definition is_valid_date_range :: "pylib \<Rightarrow> int \<Rightarrow> int \<Rightarrow> json \<Rightarrow> json \<Rightarrow> bool" where
  "is_valid_date_range L days today start_time_str end_time_str =
     (case parse_date L start_time_str of None \<Rightarrow> False
      | Some start_date \<Rightarrow>
        (case parse_date L end_time_str of None \<Rightarrow> False
         | Some end_date \<Rightarrow> end_date = today \<and> start_date = today - (days - 1)))"

section \<open>\<^verbatim>\<open>handle_response\<close>\<close>

subsection \<open>Launch-time timeline\<close>

text \<open>The loop over the projections; the inner \<^verbatim>\<open>try\<close> skips a projection whose date does not parse.\<close>

fun find_projection :: "pylib \<Rightarrow> int \<Rightarrow> json list \<Rightarrow> json option option" where
  "find_projection L today [] = Some None"
| "find_projection L today (projection # ps) =
     (case py_get projection ''startTime'' (JStr []) of None \<Rightarrow> None
      | Some start_time_str \<Rightarrow>
          if py_truthy start_time_str then
            (case parse_date L start_time_str of
               None \<Rightarrow> find_projection L today ps
             | Some start_time \<Rightarrow>
                 if start_time = today \<or> start_time = today - 1 then Some (Some projection)
                 else find_projection L today ps)
          else find_projection L today ps)"

definition p90_of_projection :: "pylib \<Rightarrow> json \<Rightarrow> pyfloat option option" where
  "p90_of_projection L target_projection =
     (if py_truthy target_projection then do {
        projection \<leftarrow> py_get target_projection ''projection'' (JObj []);
        quantiles \<leftarrow> py_get projection ''quantiles'' (JArr []);
        n \<leftarrow> py_len quantiles;
        if 19 \<le> n then do {
          q \<leftarrow> py_index quantiles 18;
          p90_microseconds \<leftarrow> py_float L q;
          p90_seconds \<leftarrow> fdiv p90_microseconds (Fin 1000000);
          Some (Some (round2 p90_seconds))
        } else Some None
      } else Some None)"

text \<open>
  The body of the \<^verbatim>\<open>try\<close>: \<open>None\<close> for an exception, \<open>Some None\<close> when nothing is
  stored, \<open>Some (Some v)\<close> for the value stored.
\<close>

definition p90_extract :: "pylib \<Rightarrow> int \<Rightarrow> response \<Rightarrow> pyfloat option option" where
  "p90_extract L today r = do {
     json_response \<leftarrow> resp_json r;
     timelines \<leftarrow> py_get json_response ''timelines'' (JArr []);
     if py_truthy timelines then do {
       n \<leftarrow> py_len timelines;
       if 0 < n then do {
         t0 \<leftarrow> py_index timelines 0;
         projections \<leftarrow> py_get t0 ''projections'' (JArr []);
         ps \<leftarrow> py_iter projections;
         target \<leftarrow> find_projection L today ps;
         (case target of None \<Rightarrow> Some None
          | Some target_projection \<Rightarrow> p90_of_projection L target_projection)
       } else Some None
     } else Some None
   }"

definition handle_p90 :: "pylib \<Rightarrow> int \<Rightarrow> response \<Rightarrow> closure \<Rightarrow> closure" where
  "handle_p90 L today r s =
     (if current_phase s = Android_p90_launch \<and> contains ''traces/_as:listTimelines'' (url r)
         \<and> \<not> contains ''filter.appVersionValues'' (url r)
      then (case p90_extract L today r of
              Some (Some p90_seconds) \<Rightarrow>
                (upd_android (\<lambda>a. a\<lparr>p90_launch_time_seconds := Some p90_seconds\<rparr>) s)
                  \<lparr>android_p90_launch_captured := True\<rparr>
            | _ \<Rightarrow> s)
      else s)"


subsection \<open>Dominant release\<close>

text \<open>The guard prefix \<^verbatim>\<open>)]}',\<close> of the response text (five characters).\<close>

definition xssi_prefix :: string where
  "xssi_prefix = [CHR '')'', CHR '']'', CHR ''}'', CHR 0x27, CHR '','']"

definition strip_prefix :: "string \<Rightarrow> string" where
  "strip_prefix response_text =
     (if take 5 response_text = xssi_prefix then drop 5 response_text else response_text)"

text \<open>
  \<open>None\<close> for an exception, \<open>Some None\<close> when nothing is stored, \<open>Some (Some v)\<close>
  for the version stored.
\<close>

definition dominant_version :: "pylib \<Rightarrow> response \<Rightarrow> json option option" where
  "dominant_version L r = do {
     response_text \<leftarrow> resp_text r;
     json_response \<leftarrow> json_loads L (strip_prefix response_text);
     dflt \<leftarrow> py_get json_response ''default'' (JObj []);
     dominant_releases \<leftarrow> py_get dflt ''responses'' (JArr []);
     n \<leftarrow> py_len dominant_releases;
     if 3 \<le> n then do {
       r2 \<leftarrow> py_index dominant_releases 2;
       rows \<leftarrow> py_get r2 ''responseRows'' JNull;
       if py_truthy rows then do {
         rows' \<leftarrow> py_subscript r2 ''responseRows'';
         row0 \<leftarrow> py_index rows' 0;
         release_data \<leftarrow> py_get row0 ''dimensionCompoundValues'' (JArr []);
         if py_truthy release_data then do {
           version_data \<leftarrow> py_index release_data 0;
           (case version_data of
              JObj kvs \<Rightarrow>
                (case map_of kvs ''value'' of
                   Some v \<Rightarrow> Some (Some v)
                 | None \<Rightarrow> Some (Some (JStr (str_of L version_data))))
            | _ \<Rightarrow> Some (Some (JStr (str_of L version_data))))
         } else Some None
       } else Some None
     } else Some None
   }"

definition handle_dominant_release :: "pylib \<Rightarrow> response \<Rightarrow> closure \<Rightarrow> closure" where
  "handle_dominant_release L r s =
     (if (current_phase s = Ios_dominant_release \<or> current_phase s = Android_dominant_release)
         \<and> contains ''analytics.google.com/analytics/app/data/v2/venus?'' (url r)
         \<and> contains ''reportId'' (url r)
      then (case dominant_version L r of
              Some (Some v) \<Rightarrow>
                if current_phase s = Ios_dominant_release
                then upd_ios (\<lambda>i. i\<lparr>ios_dominant_release := Some v\<rparr>)
                       (s\<lparr>ios_dominant_release_captured := True\<rparr>)
                else upd_android (\<lambda>a. a\<lparr>dominant_release := Some v\<rparr>)
                       (s\<lparr>android_dominant_release_captured := True\<rparr>)
            | _ \<Rightarrow> s)
      else s)"

subsection \<open>Play-console ANR clusters\<close>

text \<open>A value of \<^verbatim>\<open>grouped_anrs\<close> (its key \<^verbatim>\<open>impact_percentage\<close> is \<open>group_impact\<close> here).\<close>

record anr_group =
  affected_users :: int
  event_count :: int
  group_impact :: pyfloat

text \<open>What the loop reads from a cluster: name, affected users, events, impact ratio.\<close>

definition anr_fields :: "pylib \<Rightarrow> json \<Rightarrow> (json \<times> int \<times> int \<times> pyfloat) option" where
  "anr_fields L anr = do {
     n2 \<leftarrow> py_get anr ''2'' (JObj []);
     nm \<leftarrow> py_get n2 ''1'' (JStr ''Unknown'');
     v6 \<leftarrow> py_get anr ''6'' (JStr ''0'');
     users \<leftarrow> py_int L v6;
     v7 \<leftarrow> py_get anr ''7'' (JStr ''0'');
     cnt \<leftarrow> py_int L v7;
     v11 \<leftarrow> py_get anr ''11'' (JInt 0);
     f \<leftarrow> py_float L v11;
     Some (nm, users, cnt, f)
   }"

definition group_anr :: "pylib \<Rightarrow> (json \<times> anr_group) list \<Rightarrow> json \<Rightarrow> (json \<times> anr_group) list option" where
  "group_anr L grouped_anrs anr =
     (case anr_fields L anr of
        None \<Rightarrow> None
      | Some (nm, users, cnt, f) \<Rightarrow>
          if hashable nm then
            Some (dict_upsert key_eq nm
                   (\<lambda>g. g\<lparr>affected_users := affected_users g + users,
                            event_count := event_count g + cnt,
                            group_impact := fadd (group_impact g) (fmul f (Fin 100))\<rparr>)
                   \<lparr>affected_users = users, event_count = cnt, group_impact = fmul f (Fin 100)\<rparr>
                   grouped_anrs)
          else None)"

fun group_anrs :: "pylib \<Rightarrow> (json \<times> anr_group) list \<Rightarrow> json list \<Rightarrow> (json \<times> anr_group) list option" where
  "group_anrs L g [] = Some g"
| "group_anrs L g (anr # anrs) =
     (case group_anr L g anr of None \<Rightarrow> None | Some g' \<Rightarrow> group_anrs L g' anrs)"

definition top_anrs :: "(json \<times> anr_group) list \<Rightarrow> (json \<times> anr_group) list" where
  "top_anrs grouped_anrs = take 3 (sorted_reverse flt (\<lambda>x. group_impact (snd x)) grouped_anrs)"

definition anr_entry :: "json \<times> anr_group \<Rightarrow> anr_item" where
  "anr_entry x = \<lparr>anr_name = fst x, anr_impact_percentage = round2 (group_impact (snd x)),
                  anr_affected_users = affected_users (snd x), anr_events = event_count (snd x)\<rparr>"

text \<open>The two markers \<^verbatim>\<open>"19":2\<close> and \<^verbatim>\<open>"2":[3]\<close> of the request body.\<close>

definition marker_19 :: string where
  "marker_19 = [CHR 0x22] @ ''19'' @ [CHR 0x22] @ '':2''"

definition marker_2 :: string where
  "marker_2 = [CHR 0x22] @ ''2'' @ [CHR 0x22] @ '':[3]''"

text \<open>\<open>Some None\<close>: the request body does not qualify; \<open>None\<close>: an exception.\<close>

definition play_console_list :: "pylib \<Rightarrow> response \<Rightarrow> anr_item list option option" where
  "play_console_list L r =
     (case post_data r of
        None \<Rightarrow> Some None
      | Some request_body \<Rightarrow>
          if request_body \<noteq> [] \<and> contains marker_19 request_body \<and> contains marker_2 request_body
          then do {
            json_response \<leftarrow> resp_json r;
            anr_data \<leftarrow> py_get json_response ''1'' (JArr []);
            anrs \<leftarrow> py_iter anr_data;
            grouped_anrs \<leftarrow> group_anrs L [] anrs;
            Some (Some (map anr_entry (top_anrs grouped_anrs)))
          } else Some None)"

text \<open>\<open>pc_app_id\<close> is \<^verbatim>\<open>app_config["android"]["play_console"]["app_id"]\<close>.\<close>

definition handle_play_console :: "pylib \<Rightarrow> string \<Rightarrow> response \<Rightarrow> closure \<Rightarrow> closure" where
  "handle_play_console L pc_app_id r s =
     (if current_phase s = Up_anrs \<and> contains ''playconsolehealth-pa.clients6.google.com'' (url r)
         \<and> contains ''errorClusters'' (url r) \<and> contains pc_app_id (url r)
      then (case play_console_list L r of
              Some (Some anr_list) \<Rightarrow>
                (upd_android (\<lambda>a. a\<lparr>up_anrs := anr_list\<rparr>) s)\<lparr>play_console_anrs_captured := True\<rparr>
            | _ \<Rightarrow> s)
      else s)"

subsection \<open>Metrics reports\<close>

text \<open>
  The condition in front of each metrics extraction: the first group has interval
  metrics, and the first interval carries the expected date range.
\<close>

definition date_range_gate :: "pylib \<Rightarrow> int \<Rightarrow> int \<Rightarrow> json \<Rightarrow> bool option" where
  "date_range_gate L days today grouped_metrics =
     (if py_truthy grouped_metrics then do {
        g0 \<leftarrow> py_index grouped_metrics 0;
        im \<leftarrow> py_get g0 ''intervalMetrics'' JNull;
        if py_truthy im then do {
          im' \<leftarrow> py_subscript g0 ''intervalMetrics'';
          i0 \<leftarrow> py_index im' 0;
          start_time \<leftarrow> py_get i0 ''startTime'' (JStr []);
          end_time \<leftarrow> py_get i0 ''endTime'' (JStr []);
          Some (is_valid_date_range L days today start_time end_time)
        } else Some False
      } else Some False)"

text \<open>\<^verbatim>\<open>metric["intervalMetrics"][0]\<close>\<close>

definition interval0 :: "json \<Rightarrow> json option" where
  "interval0 metric = do { im \<leftarrow> py_subscript metric ''intervalMetrics''; py_index im 0 }"

text \<open>
  \<^verbatim>\<open>round(ratio * 100, 2)\<close>: an int (or bool) ratio stays an int; a float is multiplied
  and rounded as a float; a string or list times 100 is repeated and then makes
  \<^verbatim>\<open>round\<close> raise, as \<^verbatim>\<open>None\<close> and a \<^verbatim>\<open>dict\<close> make the product raise.
\<close>

fun percent2 :: "json \<Rightarrow> json option" where
  "percent2 (JInt i) = Some (JInt (i * 100))"
| "percent2 (JBool b) = Some (JInt (if b then 100 else 0))"
| "percent2 (JFloat f) = Some (JFloat (round2 (fmul f (Fin 100))))"
| "percent2 x = None"

definition row_ratio :: "json \<Rightarrow> json option" where
  "row_ratio metric = do {
     i0 \<leftarrow> interval0 metric;
     c \<leftarrow> py_get i0 ''crashlyticsEventFreeUsersCombined'' (JObj []);
     py_get c ''ratio'' (JInt 0)
   }"

definition row_rate :: "json \<Rightarrow> json option" where
  "row_rate metric = do { ratio \<leftarrow> row_ratio metric; percent2 ratio }"

definition row_installs :: "pylib \<Rightarrow> json \<Rightarrow> int option" where
  "row_installs L metric = do {
     i0 \<leftarrow> interval0 metric;
     v \<leftarrow> py_get i0 ''totalCrashlyticsInstalls'' (JStr ''0'');
     py_int L v
   }"

text \<open>
  Whether a row is one of the given fatality with interval metrics:
  \<^verbatim>\<open>metric.get("fatality") == f and metric.get("intervalMetrics")\<close>.
\<close>

definition row_is :: "string \<Rightarrow> json \<Rightarrow> bool option" where
  "row_is f metric = do {
     fatality \<leftarrow> py_get metric ''fatality'' JNull;
     im \<leftarrow> py_get metric ''intervalMetrics'' JNull;
     Some (fatality = JStr f \<and> py_truthy im)
   }"

text \<open>
  The Android loop. Its accumulator holds the locals \<^verbatim>\<open>non_fatal_rate\<close> and
  \<^verbatim>\<open>fatal_rate\<close> (\<open>JNull\<close> for \<^verbatim>\<open>None\<close>) and the closure variables
  \<^verbatim>\<open>non_fatal_installs\<close> and \<^verbatim>\<open>fatal_installs\<close>, which the loop assigns as it goes.
  The flag says whether the loop ran to its end.
\<close>

record metrics_acc =
  non_fatal_rate :: json
  fatal_rate :: json
  acc_non_fatal_installs :: int
  acc_fatal_installs :: int

definition android_metric_row :: "pylib \<Rightarrow> json \<Rightarrow> metrics_acc \<Rightarrow> metrics_acc option" where
  "android_metric_row L metric acc = do {
     nf \<leftarrow> row_is ''NON_FATAL'' metric;
     if nf then do {
       rate \<leftarrow> row_rate metric;
       n \<leftarrow> row_installs L metric;
       Some (acc\<lparr>non_fatal_rate := rate, acc_non_fatal_installs := n\<rparr>)
     } else do {
       f \<leftarrow> row_is ''FATAL'' metric;
       if f then do {
         rate \<leftarrow> row_rate metric;
         n \<leftarrow> row_installs L metric;
         Some (acc\<lparr>fatal_rate := rate, acc_fatal_installs := n\<rparr>)
       } else Some acc
     }
   }"

fun android_metrics_loop :: "pylib \<Rightarrow> json list \<Rightarrow> metrics_acc \<Rightarrow> metrics_acc \<times> bool" where
  "android_metrics_loop L [] acc = (acc, True)"
| "android_metrics_loop L (metric # ms) acc =
     (case android_metric_row L metric acc of
        None \<Rightarrow> (acc, False)
      | Some acc' \<Rightarrow> android_metrics_loop L ms acc')"

text \<open>
  The grouped metrics of a response once they passed the gate; \<open>None\<close> for an
  exception, \<open>Some None\<close> for a response that is skipped.
\<close>

definition gated_rows :: "pylib \<Rightarrow> int \<Rightarrow> int \<Rightarrow> response \<Rightarrow> json list option option" where
  "gated_rows L days today r = do {
     json_response \<leftarrow> resp_json r;
     grouped_metrics \<leftarrow> py_get json_response ''groupedMetrics'' (JArr []);
     ok \<leftarrow> date_range_gate L days today grouped_metrics;
     if ok then do { rows \<leftarrow> py_iter grouped_metrics; Some (Some rows) } else Some None
   }"

definition handle_android_metrics :: "pylib \<Rightarrow> int \<Rightarrow> int \<Rightarrow> response \<Rightarrow> closure \<Rightarrow> closure" where
  "handle_android_metrics L days today r s =
     (case gated_rows L days today r of
        Some (Some rows) \<Rightarrow>
          (case android_metrics_loop L rows
                  \<lparr>non_fatal_rate = JNull, fatal_rate = JNull,
                   acc_non_fatal_installs = non_fatal_installs s,
                   acc_fatal_installs = fatal_installs s\<rparr> of
             (acc, ok) \<Rightarrow>
               let s' = s\<lparr>non_fatal_installs := acc_non_fatal_installs acc,
                          fatal_installs := acc_fatal_installs acc\<rparr>
               in if ok then
                 (upd_android (\<lambda>a. a\<lparr>
                     crash_free_rates := [''fatal'' \<mapsto> fatal_rate acc,
                                          ''non_fatal'' \<mapsto> non_fatal_rate acc],
                     total_installs := [''fatal'' \<mapsto> acc_fatal_installs acc,
                                        ''non_fatal'' \<mapsto> acc_non_fatal_installs acc]\<rparr>) s')
                   \<lparr>metrics_requests := metrics_requests s' @ [url r], metrics_captured := True\<rparr>
               else s')
      | _ \<Rightarrow> s)"

text \<open>The ANR loop stops at the first ANR row with interval metrics.\<close>

fun anr_metrics_loop :: "pylib \<Rightarrow> json list \<Rightarrow> int option option" where
  "anr_metrics_loop L [] = Some None"
| "anr_metrics_loop L (metric # ms) =
     (case row_is ''ANR'' metric of None \<Rightarrow> None
      | Some True \<Rightarrow> (case row_installs L metric of None \<Rightarrow> None | Some n \<Rightarrow> Some (Some n))
      | Some False \<Rightarrow> anr_metrics_loop L ms)"

definition handle_anr_metrics :: "pylib \<Rightarrow> int \<Rightarrow> int \<Rightarrow> response \<Rightarrow> closure \<Rightarrow> closure" where
  "handle_anr_metrics L days today r s =
     (case gated_rows L days today r of
        Some (Some rows) \<Rightarrow>
          (case anr_metrics_loop L rows of
             Some (Some n) \<Rightarrow> s\<lparr>anr_installs := n, anr_metrics_captured := True\<rparr>
           | _ \<Rightarrow> s)
      | _ \<Rightarrow> s)"

text \<open>
  The iOS loop writes into the closure and the result as it goes, so a row returns
  the state it reached and whether it ended without an exception.
\<close>

definition ios_metric_row :: "pylib \<Rightarrow> json \<Rightarrow> closure \<Rightarrow> closure \<times> bool" where
  "ios_metric_row L metric s =
     (case row_is ''FATAL'' metric of None \<Rightarrow> (s, False)
      | Some True \<Rightarrow>
          (case row_installs L metric of None \<Rightarrow> (s, False)
           | Some n \<Rightarrow>
               let s1 = s\<lparr>ios_fatal_installs := n\<rparr> in
               if (current_phase s = Ios_crashes \<or> current_phase s = Ios_metrics)
                  \<and> ios_crash_free_rates (ios (data s)) ''fatal'' = None
               then (case row_rate metric of None \<Rightarrow> (s1, False)
                     | Some rate \<Rightarrow>
                         (upd_ios (\<lambda>i. i\<lparr>
                            ios_crash_free_rates := (ios_crash_free_rates i)(''fatal'' \<mapsto> rate),
                            ios_total_installs := (ios_total_installs i)(''fatal'' \<mapsto> n)\<rparr>) s1, True))
               else (s1, True))
      | Some False \<Rightarrow>
          (case row_is ''NON_FATAL'' metric of None \<Rightarrow> (s, False)
           | Some True \<Rightarrow>
               (case row_installs L metric of None \<Rightarrow> (s, False)
                | Some n \<Rightarrow>
                    let s1 = s\<lparr>ios_non_fatal_installs := n\<rparr> in
                    if (current_phase s = Ios_non_fatals \<or> current_phase s = Ios_metrics)
                       \<and> ios_crash_free_rates (ios (data s)) ''non_fatal'' = None
                    then (case row_rate metric of None \<Rightarrow> (s1, False)
                          | Some rate \<Rightarrow>
                              (upd_ios (\<lambda>i. i\<lparr>
                                 ios_crash_free_rates := (ios_crash_free_rates i)(''non_fatal'' \<mapsto> rate),
                                 ios_total_installs := (ios_total_installs i)(''non_fatal'' \<mapsto> n)\<rparr>) s1, True))
                    else (s1, True))
           | Some False \<Rightarrow> (s, True)))"

fun ios_metrics_loop :: "pylib \<Rightarrow> json list \<Rightarrow> closure \<Rightarrow> closure \<times> bool" where
  "ios_metrics_loop L [] s = (s, True)"
| "ios_metrics_loop L (metric # ms) s =
     (case ios_metric_row L metric s of
        (s', True) \<Rightarrow> ios_metrics_loop L ms s'
      | (s', False) \<Rightarrow> (s', False))"

text \<open>The \<^verbatim>\<open>except\<close> branch: the flag is still set when a fatal rate is there.\<close>

definition ios_metrics_except :: "closure \<Rightarrow> closure" where
  "ios_metrics_except s =
     (if ios_crash_free_rates (ios (data s)) ''fatal'' \<noteq> None
      then s\<lparr>ios_metrics_captured := True\<rparr> else s)"

definition handle_ios_metrics :: "pylib \<Rightarrow> int \<Rightarrow> int \<Rightarrow> response \<Rightarrow> closure \<Rightarrow> closure" where
  "handle_ios_metrics L days today r s =
     (case gated_rows L days today r of
        None \<Rightarrow> ios_metrics_except s
      | Some None \<Rightarrow> s
      | Some (Some rows) \<Rightarrow>
          (case ios_metrics_loop L rows s of
             (s', True) \<Rightarrow>
               if current_phase s = Ios_metrics \<or> current_phase s = Ios_non_fatals
               then s'\<lparr>ios_metrics_captured := True\<rparr> else s'
           | (s', False) \<Rightarrow> ios_metrics_except s'))"


subsection \<open>Top issues\<close>

text \<open>
  The keys of \<^verbatim>\<open>grouped_issues\<close>. Outside the iOS phases a key is the title or subtitle
  of a row. In an iOS phase it is the string \<^verbatim>\<open>f"{title}_{len(grouped_issues)}"\<close>, kept
  here as the pair of \<^verbatim>\<open>str(title)\<close> and the length: the decimal digits behind the
  last underscore give the length back, so two such strings are equal exactly when the
  pairs are.
\<close>

datatype gkey = GKey json | IKey string nat

fun gkey_eq :: "gkey \<Rightarrow> gkey \<Rightarrow> bool" where
  "gkey_eq (GKey a) (GKey b) = key_eq a b"
| "gkey_eq (IKey a m) (IKey b n) = (a = b \<and> m = n)"
| "gkey_eq x y = False"

record group_entry =
  title :: json
  original_title :: json
  subtitle :: json
  impactedDevicesCount :: int
  eventsCount :: int

text \<open>What the loop reads from a row: subtitle, title, impacted devices, events.\<close>

definition issue_fields :: "pylib \<Rightarrow> json \<Rightarrow> (json \<times> json \<times> int \<times> int) option" where
  "issue_fields L issue = do {
     caption \<leftarrow> py_get issue ''caption'' (JObj []);
     sub \<leftarrow> py_get caption ''subtitle'' (JStr ''Unknown'');
     tit \<leftarrow> py_get caption ''title'' (JStr ''Unknown'');
     dv \<leftarrow> py_get issue ''impactedDevicesCount'' (JStr ''0'');
     impacted \<leftarrow> py_int L dv;
     ev \<leftarrow> py_get issue ''eventsCount'' (JStr ''0'');
     evs \<leftarrow> py_int L ev;
     Some (sub, tit, impacted, evs)
   }"

definition group_key :: "phase \<Rightarrow> json \<Rightarrow> json \<Rightarrow> json" where
  "group_key ph sub tit = (if ph = Anrs \<or> starts_with_ios ph then tit else sub)"

definition display_title :: "phase \<Rightarrow> json \<Rightarrow> json \<Rightarrow> json" where
  "display_title ph sub tit =
     (if ph = Anrs \<or> starts_with_ios ph then tit
      else if sub \<noteq> JStr ''Unknown'' then sub else tit)"

definition group_issue :: "pylib \<Rightarrow> phase \<Rightarrow> (gkey \<times> group_entry) list \<Rightarrow> json \<Rightarrow> (gkey \<times> group_entry) list option" where
  "group_issue L ph grouped_issues issue =
     (case issue_fields L issue of
        None \<Rightarrow> None
      | Some (sub, tit, impacted, evs) \<Rightarrow>
          if starts_with_ios ph then
            let e = \<lparr>title = (if ph = Ios_non_fatals then sub else tit), original_title = tit,
                     subtitle = sub, impactedDevicesCount = impacted, eventsCount = evs\<rparr>
            in Some (dict_upsert gkey_eq (IKey (str_of L tit) (length grouped_issues))
                       (\<lambda>_. e) e grouped_issues)
          else if hashable (group_key ph sub tit) then
            Some (dict_upsert gkey_eq (GKey (group_key ph sub tit))
                   (\<lambda>g. g\<lparr>impactedDevicesCount := impactedDevicesCount g + impacted,
                            eventsCount := eventsCount g + evs\<rparr>)
                   \<lparr>title = display_title ph sub tit, original_title = tit, subtitle = sub,
                    impactedDevicesCount = impacted, eventsCount = evs\<rparr>
                   grouped_issues)
          else None)"

fun group_issues :: "pylib \<Rightarrow> phase \<Rightarrow> (gkey \<times> group_entry) list \<Rightarrow> json list \<Rightarrow> (gkey \<times> group_entry) list option" where
  "group_issues L ph g [] = Some g"
| "group_issues L ph g (issue # issues) =
     (case group_issue L ph g issue of None \<Rightarrow> None | Some g' \<Rightarrow> group_issues L ph g' issues)"

text \<open>\<^verbatim>\<open>sorted(grouped_issues.values(), key=..., reverse=True)[:3]\<close>\<close>

definition top_issues :: "(gkey \<times> group_entry) list \<Rightarrow> group_entry list" where
  "top_issues grouped_issues =
     take 3 (sorted_reverse (<) impactedDevicesCount (map snd grouped_issues))"

text \<open>\<^verbatim>\<open>int(devices / total_installs * 100) if total_installs > 0 else 0\<close>\<close>

definition impact_percent :: "int \<Rightarrow> int \<Rightarrow> int option" where
  "impact_percent devices installs =
     (if 0 < installs then do {
        q \<leftarrow> int_truediv devices installs;
        int_of_float (fmul q (Fin 100))
      } else Some 0)"

definition add_issue :: "phase \<Rightarrow> issue_data \<Rightarrow> closure \<Rightarrow> closure" where
  "add_issue ph issue s =
     (if ph = Crashes then upd_android (\<lambda>a. a\<lparr>top_crashes := top_crashes a @ [issue]\<rparr>) s
      else if ph = Non_fatals then upd_android (\<lambda>a. a\<lparr>top_non_fatals := top_non_fatals a @ [issue]\<rparr>) s
      else if ph = Anrs then upd_android (\<lambda>a. a\<lparr>all_anrs := all_anrs a @ [issue]\<rparr>) s
      else if ph = Ios_crashes then upd_ios (\<lambda>i. i\<lparr>ios_top_crashes := ios_top_crashes i @ [issue]\<rparr>) s
      else if ph = Ios_non_fatals then upd_ios (\<lambda>i. i\<lparr>ios_top_non_fatals := ios_top_non_fatals i @ [issue]\<rparr>) s
      else s)"

text \<open>
  The loop over \<^verbatim>\<open>enumerate(sorted_issues, 1)\<close>: an exception in the percentage leaves
  the entries appended so far.
\<close>

fun store_issues :: "phase \<Rightarrow> int \<Rightarrow> nat \<Rightarrow> group_entry list \<Rightarrow> closure \<Rightarrow> closure \<times> bool" where
  "store_issues ph installs i [] s = (s, True)"
| "store_issues ph installs i (issue # issues) s =
     (case impact_percent (impactedDevicesCount issue) installs of
        None \<Rightarrow> (s, False)
      | Some pct \<Rightarrow>
          store_issues ph installs (Suc i) issues
            (add_issue ph \<lparr>rank = i, name = title issue, impact_percentage = pct,
                            impacted_devices = impactedDevicesCount issue,
                            events = eventsCount issue\<rparr> s))"

definition set_issue_flag :: "phase \<Rightarrow> closure \<Rightarrow> closure" where
  "set_issue_flag ph s =
     (if ph = Crashes then s\<lparr>crashes_captured := True\<rparr>
      else if ph = Non_fatals then s\<lparr>non_fatals_captured := True\<rparr>
      else if ph = Anrs then s
      else if ph = Ios_crashes then s\<lparr>ios_crashes_captured := True\<rparr>
      else if ph = Ios_non_fatals then s\<lparr>ios_non_fatals_captured := True\<rparr>
      else s)"

text \<open>The chain of guards in front of the \<^verbatim>\<open>try\<close>: the install count to use, or a \<^verbatim>\<open>return\<close>.\<close>

datatype issues_gate = Process int | Pending | Skip

definition issues_guard :: "closure \<Rightarrow> issues_gate" where
  "issues_guard s =
     (if current_phase s = Crashes \<and> \<not> crashes_captured s then Process (fatal_installs s)
      else if current_phase s = Non_fatals \<and> \<not> non_fatals_captured s then Process (non_fatal_installs s)
      else if current_phase s = Anrs \<and> anr_metrics_captured s then Process (anr_installs s)
      else if current_phase s = Ios_crashes \<and> ios_metrics_captured s then Process (ios_fatal_installs s)
      else if current_phase s = Ios_non_fatals \<and> ios_metrics_captured s then Process (ios_non_fatal_installs s)
      else if current_phase s = Ios_non_fatals \<and> \<not> ios_metrics_captured s then Pending
      else Skip)"

definition grouped_of_response :: "pylib \<Rightarrow> phase \<Rightarrow> response \<Rightarrow> (gkey \<times> group_entry) list option" where
  "grouped_of_response L ph r = do {
     json_response \<leftarrow> resp_json r;
     top \<leftarrow> py_get json_response ''topIssues'' (JArr []);
     rows \<leftarrow> py_iter top;
     group_issues L ph [] rows
   }"

definition handle_top_issues :: "pylib \<Rightarrow> response \<Rightarrow> closure \<Rightarrow> closure" where
  "handle_top_issues L r s =
     (case issues_guard s of
        Skip \<Rightarrow> s
      | Pending \<Rightarrow> s\<lparr>ios_nonfatal_issues_processed := True\<rparr>
      | Process installs \<Rightarrow>
          (case grouped_of_response L (current_phase s) r of
             None \<Rightarrow> s
           | Some grouped_issues \<Rightarrow>
               (case store_issues (current_phase s) installs 1 (top_issues grouped_issues) s of
                  (s', True) \<Rightarrow> set_issue_flag (current_phase s) s'
                | (s', False) \<Rightarrow> s')))"

subsection \<open>The handler\<close>

text \<open>
  Three independent \<^verbatim>\<open>if\<close> statements, then one \<^verbatim>\<open>if\<close>/\<^verbatim>\<open>elif\<close> chain over the two
  Crashlytics endpoints. \<open>days\<close> is \<^verbatim>\<open>DATE_RANGE_DAYS\<close>, \<open>today\<close> the date of
  \<^verbatim>\<open>datetime.now()\<close> when the response arrives, \<open>pc_app_id\<close> the Play-console app id of
  the app. One call of the handler is one step: the model does not interleave two
  calls at their \<^verbatim>\<open>await\<close>s.
\<close>

definition handle_reports :: "pylib \<Rightarrow> int \<Rightarrow> int \<Rightarrow> response \<Rightarrow> closure \<Rightarrow> closure" where
  "handle_reports L days today r s =
     (if \<not> metrics_captured s \<and> contains ''metrics:getMetricsReport'' (url r)
      then handle_android_metrics L days today r s
      else if current_phase s = Anr_metrics \<and> contains ''metrics:getMetricsReport'' (url r)
      then handle_anr_metrics L days today r s
      else if (current_phase s = Ios_metrics \<or> current_phase s = Ios_crashes
               \<or> current_phase s = Ios_non_fatals)
              \<and> contains ''metrics:getMetricsReport'' (url r)
      then handle_ios_metrics L days today r s
      else if contains ''metrics:listFirebaseTopOpenIssues'' (url r)
      then handle_top_issues L r s
      else s)"

definition handle_response :: "pylib \<Rightarrow> int \<Rightarrow> string \<Rightarrow> int \<Rightarrow> response \<Rightarrow> closure \<Rightarrow> closure" where
  "handle_response L days pc_app_id today r s =
     handle_reports L days today r
       (handle_play_console L pc_app_id r
         (handle_dominant_release L r
           (handle_p90 L today r s)))"


section \<open>\<^verbatim>\<open>_build_urls\<close>\<close>

text \<open>
  An entry of \<^verbatim>\<open>APPS_CONFIG\<close>. \<open>ios_app\<close> is \<^verbatim>\<open>app_config["ios"]["app_id"]\<close> when the
  key \<^verbatim>\<open>ios\<close> is there; \<open>has_ios\<close> and \<open>has_p90_launch_time\<close> are \<open>None\<close> when the
  key is missing; \<open>pc_app_id\<close> and \<open>developer_id\<close> are the Play-console ids.
\<close>

record app_config =
  config_name :: string
  firebase_project :: string
  android_app_id :: string
  package_name :: string
  developer_id :: string
  pc_app_id :: string
  ios_app :: "string option"
  has_ios :: "bool option"
  has_p90_launch_time :: "bool option"

record urls =
  firebase_url :: string
  top_crashes_url :: string
  top_non_fatals_url :: string
  top_anrs_url :: string
  play_console_anr_url :: string
  android_p90_launch_url :: "string option"
  ios_crashes_url :: "string option"
  ios_non_fatals_url :: "string option"
  ios_dominant_release_url :: "string option"
  android_dominant_release_url :: "string option"

definition firebase_time :: "int \<Rightarrow> string" where
  "firebase_time report_days = (if report_days = 7 then ''last-seven-days'' else ''last-thirty-days'')"

definition ga_date_option :: "int \<Rightarrow> string" where
  "ga_date_option report_days = (if report_days = 7 then ''last7Days'' else ''last28Days'')"

definition pc_days :: "int \<Rightarrow> string" where
  "pc_days report_days = (if report_days = 7 then ''7'' else ''30'')"

definition perf_time :: "int \<Rightarrow> string" where
  "perf_time report_days = (if report_days = 7 then ''7d'' else ''30d'')"

definition crashlytics_base :: "app_config \<Rightarrow> string" where
  "crashlytics_base cfg =
       ''https://console.firebase.google.com/u/0/project/'' @
       firebase_project cfg @
       ''/crashlytics/app''"

definition issues_url :: "int \<Rightarrow> app_config \<Rightarrow> string \<Rightarrow> string \<Rightarrow> string" where
  "issues_url report_days cfg app query =
     crashlytics_base cfg @ ''/'' @ app @ ''/issues?state=open&time='' @ firebase_time report_days @ query"

definition play_console_url :: "int \<Rightarrow> app_config \<Rightarrow> string" where
  "play_console_url report_days cfg =
       ''https://play.google.com/console/u/0/developers/'' @
       developer_id cfg @
       ''/app/'' @
       pc_app_id cfg @
       ''/vitals/crashes'' @
       ''?days='' @
       pc_days report_days @
       ''&isUserPerceived=true&errorType=ANR''"

definition p90_url :: "int \<Rightarrow> app_config \<Rightarrow> string" where
  "p90_url report_days cfg =
       ''https://console.firebase.google.com/u/0/project/'' @
       firebase_project cfg @
       ''/performance/app/'' @
       android_app_id cfg @
       ''/trends?time='' @
       perf_time report_days"

definition ios_dom_url :: "int \<Rightarrow> app_config \<Rightarrow> string \<Rightarrow> string" where
  "ios_dom_url report_days cfg ios_app_id =
       ''https://console.firebase.google.com/u/0/project/'' @
       firebase_project cfg @
       ''/analytics/app/'' @
       ios_app_id @
       ''/overview/'' @
       ''reports~2Fexplorer%3Fparams%3D_r.explorerCard..selmet%253D%255B%2522ac'' @
       ''tiveUsers%2522%255D%2526_r.explorerCard..seldim%253D%255B%2522appVersi'' @
       ''on%2522%255D'' @
       ''%2526_r..dataFilters%253D%255B%257B%2522type%2522%253A1%252C%2522field'' @
       ''Name%253A%2522operatingSystem%2522%252C%2522evaluationType%2522%253A4%'' @
       ''252C%2522expressionList%253A%255B%2522iOS%2522%255D%252C%2522complemen'' @
       ''t%2522%253Afalse%252C%2522isCaseSensitive%253Atrue%252C%2522expression'' @
       ''%253A%2522%2522%257D%255D'' @
       ''%2526_u.dateOption%253D'' @
       ga_date_option report_days @
       ''%2526_u.comparisonOption%253Ddisabled&r%3Duser-technology-detail&fpn%3'' @
       ''D324301932190''"

definition android_dom_url :: "int \<Rightarrow> app_config \<Rightarrow> string \<Rightarrow> string" where
  "android_dom_url report_days cfg app =
       ''https://console.firebase.google.com/u/0/project/'' @
       firebase_project cfg @
       ''/analytics/app/'' @
       app @
       ''/overview/'' @
       ''reports~2Fexplorer%3Fparams%3D_r.explorerCard..selmet%253D%255B%2522ac'' @
       ''tiveUsers%2522%255D%2526_r.explorerCard..seldim%253D%255B%2522appVersi'' @
       ''on%2522%255D'' @
       ''%2526_r..dataFilters%253D%255B%257B%2522type%2522%253A1%252C%2522field'' @
       ''Name%253A%2522operatingSystem%2522%252C%2522evaluationType%253A3%252C%'' @
       ''2522expressionList%253A%255B%2522iOS%2522%255D%252C%2522complement%253'' @
       ''Atrue%252C%2522isCaseSensitive%253Atrue%252C%2522expression%253A%2522%'' @
       ''2522%257D%255D'' @
       ''%2526_r.copa-filter-builder..filter-to-edit%253D%255B%257B%2522type%25'' @
       ''22%253A1%252C%2522fieldName%253A%2522operatingSystem%2522%252C%2522eva'' @
       ''luationType%253A4%252C%2522expressionList%253A%255B%2522iOS%2522%255D%'' @
       ''252C%2522complement%253Afalse%252C%2522isCaseSensitive%253Atrue%252C%2'' @
       ''522expression%253A%2522%2522%257D%255D%2526_u.comparisonOption%253Ddis'' @
       ''abled%2526_u.dateOption%253D'' @
       ga_date_option report_days @
       ''&r%3Duser-technology-detail&fpn%3D324301932190''"

text \<open>
  The two dominant-release templates of the iOS and of the Android-only branch are the
  same text around the app id, so one definition serves both. The defaults built before
  the branch are overwritten in either branch and left out.
\<close>

definition build_urls :: "int \<Rightarrow> string \<Rightarrow> app_config \<Rightarrow> urls" where
  "build_urls report_days key cfg =
     \<lparr>firebase_url = issues_url report_days cfg (android_app_id cfg) ''&tag=all&sort=userCount&types=crash%2Cerror'',
      top_crashes_url = issues_url report_days cfg (android_app_id cfg) ''&tag=all&sort=userCount&types=crash'',
      top_non_fatals_url = issues_url report_days cfg (android_app_id cfg) ''&tag=all&sort=userCount&types=error'',
      top_anrs_url = issues_url report_days cfg (android_app_id cfg) ''&tag=all&sort=userCount&types=ANR'',
      play_console_anr_url = play_console_url report_days cfg,
      android_p90_launch_url =
        (if has_p90_launch_time cfg \<noteq> Some False then Some (p90_url report_days cfg) else None),
      ios_crashes_url =
        (case ios_app cfg of
           Some a \<Rightarrow> if has_ios cfg = Some True
                     then Some (issues_url report_days cfg a ''&types=crash&tag=all&sort=userCount'') else None
         | None \<Rightarrow> None),
      ios_non_fatals_url =
        (case ios_app cfg of
           Some a \<Rightarrow> if has_ios cfg = Some True
                     then Some (issues_url report_days cfg a ''&types=error&tag=all&sort=eventCount'') else None
         | None \<Rightarrow> None),
      ios_dominant_release_url =
        (case ios_app cfg of
           Some a \<Rightarrow> if has_ios cfg = Some True then Some (ios_dom_url report_days cfg a) else None
         | None \<Rightarrow> None),
      android_dominant_release_url =
        (case ios_app cfg of
           Some a \<Rightarrow> if has_ios cfg = Some True then Some (android_dom_url report_days cfg a)
                     else Some (android_dom_url report_days cfg (android_app_id cfg))
         | None \<Rightarrow> Some (android_dom_url report_days cfg (android_app_id cfg)))\<rparr>"


section \<open>\<^verbatim>\<open>collect_app_data\<close>: the navigation sequence\<close>

text \<open>
  The sequencer and the handler run on one event loop: the handler runs while the
  sequencer waits in an \<^verbatim>\<open>await\<close>. The environment says, for the \<open>n\<close>-th \<^verbatim>\<open>await\<close> of
  a run, which responses arrive during it (each with the date of its arrival), and
  whether it raises when it is a call to the page (\<^verbatim>\<open>goto\<close>, \<^verbatim>\<open>reload\<close>, \<^verbatim>\<open>evaluate\<close>);
  \<^verbatim>\<open>asyncio.sleep\<close> does not raise. \<open>vitals\<close> is what \<^verbatim>\<open>get_google_play_vitals\<close> returns
  (\<open>None\<close> also when the Google libraries are missing).
\<close>

record event =
  ev_today :: int
  ev_response :: response

record environment =
  arrivals :: "nat \<Rightarrow> event list"
  raises :: "nat \<Rightarrow> bool"
  vitals :: "json option"

type_synonym handler = "int \<Rightarrow> response \<Rightarrow> closure \<Rightarrow> closure"

text \<open>A configuration: the closure and the number of \<^verbatim>\<open>await\<close>s passed.\<close>

type_synonym config = "closure \<times> nat"

definition deliver :: "handler \<Rightarrow> event list \<Rightarrow> closure \<Rightarrow> closure" where
  "deliver H evs s = foldl (\<lambda>s e. H (ev_today e) (ev_response e) s) s evs"

text \<open>\<^verbatim>\<open>await asyncio.sleep(_)\<close>\<close>

definition sleep :: "handler \<Rightarrow> environment \<Rightarrow> config \<Rightarrow> config" where
  "sleep H E c = (deliver H (arrivals E (snd c)) (fst c), Suc (snd c))"

text \<open>\<^verbatim>\<open>while not flag: await asyncio.sleep(1)\<close>, which need not end.\<close>

partial_function (option) wait_until :: "handler \<Rightarrow> environment \<Rightarrow> (closure \<Rightarrow> bool) \<Rightarrow> config \<Rightarrow> config option" where
  "wait_until H E flag c = (if flag (fst c) then Some c else wait_until H E flag (sleep H E c))"

text \<open>
  \<^verbatim>\<open>while not flag and elapsed < timeout_seconds: await asyncio.sleep(1); elapsed += 1\<close>;
  the result carries \<open>elapsed\<close>.
\<close>

function wait_loop :: "handler \<Rightarrow> environment \<Rightarrow> (closure \<Rightarrow> bool) \<Rightarrow> nat \<Rightarrow> config \<Rightarrow> nat \<Rightarrow> config \<times> nat" where
  "wait_loop H E flag timeout_seconds c elapsed =
     (if \<not> flag (fst c) \<and> elapsed < timeout_seconds
      then wait_loop H E flag timeout_seconds (sleep H E c) (elapsed + 1)
      else (c, elapsed))"
  by pat_completeness auto
termination
  by (relation "measure (\<lambda>(H, E, flag, timeout_seconds, c, elapsed). timeout_seconds - elapsed)") auto

declare wait_loop.simps [simp del]

text \<open>The loop with \<^verbatim>\<open>timeout_seconds = 120\<close> and the \<^verbatim>\<open>if not flag: flag = True\<close> behind it.\<close>

definition bounded_wait :: "handler \<Rightarrow> environment \<Rightarrow> (closure \<Rightarrow> bool) \<Rightarrow> (closure \<Rightarrow> closure) \<Rightarrow> config \<Rightarrow> config" where
  "bounded_wait H E flag force c =
     (case wait_loop H E flag 120 c 0 of
        (c', elapsed) \<Rightarrow> if \<not> flag (fst c') then (force (fst c'), snd c') else c')"

text \<open>
  A statement of the sequence ends (\<open>Cont\<close>), raises (\<open>Raised\<close>: \<^verbatim>\<open>collect_app_data\<close>
  returns \<^verbatim>\<open>None\<close>) or never ends (\<open>Hangs\<close>).
\<close>

datatype outcome = Hangs | Raised | Cont config

datatype step =
    Goto string
  | Reload
  | Evaluate
  | Sleep
  | Phase phase
  | Wait "closure \<Rightarrow> bool"
  | Wait_bounded "closure \<Rightarrow> bool" "closure \<Rightarrow> closure"

fun run_step :: "handler \<Rightarrow> environment \<Rightarrow> step \<Rightarrow> config \<Rightarrow> outcome" where
  "run_step H E (Goto u) c = (if raises E (snd c) then Raised else Cont (sleep H E c))"
| "run_step H E Reload c = (if raises E (snd c) then Raised else Cont (sleep H E c))"
| "run_step H E Evaluate c = (if raises E (snd c) then Raised else Cont (sleep H E c))"
| "run_step H E Sleep c = Cont (sleep H E c)"
| "run_step H E (Phase p) c = Cont ((fst c)\<lparr>current_phase := p\<rparr>, snd c)"
| "run_step H E (Wait flag) c = (case wait_until H E flag c of None \<Rightarrow> Hangs | Some c' \<Rightarrow> Cont c')"
| "run_step H E (Wait_bounded flag force) c = Cont (bounded_wait H E flag force c)"

fun run_steps :: "handler \<Rightarrow> environment \<Rightarrow> step list \<Rightarrow> config \<Rightarrow> outcome" where
  "run_steps H E [] c = Cont c"
| "run_steps H E (st # sts) c =
     (case run_step H E st c of Cont c' \<Rightarrow> run_steps H E sts c' | out \<Rightarrow> out)"

text \<open>The statements of \<^verbatim>\<open>collect_app_data\<close> from \<^verbatim>\<open>page.goto(firebase_url)\<close> on.\<close>

definition android_steps :: "urls \<Rightarrow> step list" where
  "android_steps u =
     [Goto (firebase_url u), Wait metrics_captured, Sleep,
      Phase Crashes, Goto (top_crashes_url u), Wait crashes_captured,
      Phase Non_fatals, Sleep, Goto (top_non_fatals_url u), Wait non_fatals_captured,
      Phase Anr_metrics, Sleep, Goto (top_anrs_url u), Wait anr_metrics_captured,
      Phase Anrs]"

definition ios_steps :: "string \<Rightarrow> string \<Rightarrow> step list" where
  "ios_steps crashes_url non_fatals_url =
     [Sleep, Phase Ios_metrics, Goto crashes_url, Sleep, Reload, Sleep, Reload, Evaluate,
      Wait_bounded ios_metrics_captured (\<lambda>s. s\<lparr>ios_metrics_captured := True\<rparr>),
      Phase Ios_crashes,
      Wait_bounded ios_crashes_captured (\<lambda>s. s\<lparr>ios_crashes_captured := True\<rparr>),
      Phase Ios_non_fatals, Sleep, Goto non_fatals_url,
      Wait_bounded ios_non_fatals_captured (\<lambda>s. s\<lparr>ios_non_fatals_captured := True\<rparr>)]"

definition play_console_steps :: "urls \<Rightarrow> step list" where
  "play_console_steps u =
     [Phase Up_anrs, Sleep, Goto (play_console_anr_url u),
      Wait_bounded play_console_anrs_captured (\<lambda>s. s\<lparr>play_console_anrs_captured := True\<rparr>)]"

definition ios_dominant_steps :: "string \<Rightarrow> step list" where
  "ios_dominant_steps dom_url =
     [Phase Ios_dominant_release, Sleep, Goto dom_url,
      Wait_bounded ios_dominant_release_captured (\<lambda>s. s\<lparr>ios_dominant_release_captured := True\<rparr>)]"

definition android_dominant_steps :: "string \<Rightarrow> step list" where
  "android_dominant_steps dom_url =
     [Phase Android_dominant_release, Sleep, Goto dom_url,
      Wait_bounded android_dominant_release_captured
        (\<lambda>s. s\<lparr>android_dominant_release_captured := True\<rparr>)]"

definition p90_steps :: "string \<Rightarrow> step list" where
  "p90_steps launch_url =
     [Phase Android_p90_launch, Sleep, Goto launch_url,
      Wait_bounded android_p90_launch_captured (\<lambda>s. s\<lparr>android_p90_launch_captured := True\<rparr>)]"

text \<open>
  A URL is a non-empty string, so \<^verbatim>\<open>if app_config.get("has_ios") and ios_crashes_url\<close>
  asks whether the flag is true and the URL was built. The non-fatals URL is built
  together with the crashes URL.
\<close>

definition all_steps :: "app_config \<Rightarrow> urls \<Rightarrow> step list" where
  "all_steps cfg u =
     android_steps u
     @ (case (ios_crashes_url u, ios_non_fatals_url u) of
          (Some cu, Some nu) \<Rightarrow> if has_ios cfg = Some True then ios_steps cu nu else []
        | _ \<Rightarrow> [])
     @ play_console_steps u
     @ (case ios_dominant_release_url u of
          Some du \<Rightarrow> if has_ios cfg = Some True then ios_dominant_steps du else []
        | None \<Rightarrow> [])
     @ (case android_dominant_release_url u of
          Some du \<Rightarrow> android_dominant_steps du
        | None \<Rightarrow> [])
     @ (case android_p90_launch_url u of
          Some lu \<Rightarrow> if has_p90_launch_time cfg \<noteq> Some False then p90_steps lu else []
        | None \<Rightarrow> [])"

definition initial_data :: "string \<Rightarrow> app_config \<Rightarrow> app_data" where
  "initial_data key cfg =
     \<lparr>app_key = key, app_name = config_name cfg,
      android = \<lparr>crash_free_rates = Map.empty, total_installs = Map.empty, top_crashes = [],
                 top_non_fatals = [], all_anrs = [], up_anrs = [],
                 p90_launch_time_seconds = None, dominant_release = None\<rparr>,
      ios = \<lparr>ios_crash_free_rates = Map.empty, ios_total_installs = Map.empty,
             ios_top_crashes = [], ios_top_non_fatals = [], ios_dominant_release = None\<rparr>,
      google_play_vitals = None\<rparr>"

definition initial_closure :: "string \<Rightarrow> app_config \<Rightarrow> closure" where
  "initial_closure key cfg =
     \<lparr>metrics_requests = [], metrics_captured = False, fatal_installs = 0,
      non_fatal_installs = 0, anr_installs = 0, ios_fatal_installs = 0,
      ios_non_fatal_installs = 0, crashes_captured = False, non_fatals_captured = False,
      anr_metrics_captured = False, ios_metrics_captured = False, ios_crashes_captured = False,
      ios_non_fatals_captured = False, ios_crash_free_rate_captured = False,
      play_console_anrs_captured = False, ios_dominant_release_captured = False,
      android_dominant_release_captured = False, android_p90_launch_captured = False,
      ios_nonfatal_issues_processed = False, current_phase = Metrics,
      data = initial_data key cfg\<rparr>"

text \<open>\<^verbatim>\<open>if vitals_data: app_data["google_play_vitals"] = vitals_data\<close>\<close>

definition add_vitals :: "environment \<Rightarrow> app_data \<Rightarrow> app_data" where
  "add_vitals E d =
     (case vitals E of
        Some v \<Rightarrow> if py_truthy v then d\<lparr>google_play_vitals := Some v\<rparr> else d
      | None \<Rightarrow> d)"

text \<open>
  The result: \<open>None\<close> when the run never returns, \<open>Some None\<close> when it returns
  \<^verbatim>\<open>None\<close> after an exception, \<open>Some (Some d)\<close> when it returns \<^verbatim>\<open>app_data\<close>.
\<close>

definition collect_app_data :: "pylib \<Rightarrow> int \<Rightarrow> int \<Rightarrow> string \<Rightarrow> app_config \<Rightarrow> environment \<Rightarrow> app_data option option" where
  "collect_app_data L days report_days key cfg E =
     (case run_steps (handle_response L days (pc_app_id cfg)) E
             (all_steps cfg (build_urls report_days key cfg)) (initial_closure key cfg, 0) of
        Hangs \<Rightarrow> None
      | Raised \<Rightarrow> Some None
      | Cont c \<Rightarrow> Some (Some (add_vitals E (data (fst c)))))"

section \<open>The phases in which a response is looked at\<close>

text \<open>
  The URL signatures of the handler, each with the phases in which the handler looks
  at a response that carries it. The metrics report is read while \<^verbatim>\<open>metrics_captured\<close>
  is false, which in a run is the phase \<open>Metrics\<close> (the sequencer leaves that phase
  only once the flag is set), and in the ANR-metrics and the three iOS phases.
\<close>

definition accepted_in :: "string \<Rightarrow> string \<Rightarrow> phase \<Rightarrow> bool" where
  "accepted_in app_id u ph =
     ((contains ''traces/_as:listTimelines'' u \<and> \<not> contains ''filter.appVersionValues'' u
         \<and> ph = Android_p90_launch)
      \<or> (contains ''analytics.google.com/analytics/app/data/v2/venus?'' u \<and> contains ''reportId'' u
         \<and> (ph = Ios_dominant_release \<or> ph = Android_dominant_release))
      \<or> (contains ''playconsolehealth-pa.clients6.google.com'' u \<and> contains ''errorClusters'' u
         \<and> contains app_id u \<and> ph = Up_anrs)
      \<or> (contains ''metrics:getMetricsReport'' u
         \<and> (ph = Metrics \<or> ph = Anr_metrics \<or> ph = Ios_metrics \<or> ph = Ios_crashes
              \<or> ph = Ios_non_fatals))
      \<or> (contains ''metrics:listFirebaseTopOpenIssues'' u
         \<and> (ph = Crashes \<or> ph = Non_fatals \<or> ph = Anrs \<or> ph = Ios_crashes
              \<or> ph = Ios_non_fatals)))"

text \<open>The crash-free rates and the install totals of both platforms.\<close>

definition rate_fields :: "closure \<Rightarrow> (string \<rightharpoonup> json) \<times> (string \<rightharpoonup> int) \<times> (string \<rightharpoonup> json) \<times> (string \<rightharpoonup> int)" where
  "rate_fields s =
     (crash_free_rates (android (data s)), total_installs (android (data s)),
      ios_crash_free_rates (ios (data s)), ios_total_installs (ios (data s)))"

text \<open>An order relation that is irreflexive, transitive and total on a set of keys.\<close>

definition strict_linear_on :: "'k set \<Rightarrow> ('k \<Rightarrow> 'k \<Rightarrow> bool) \<Rightarrow> bool" where
  "strict_linear_on K lt =
     ((\<forall>a\<in>K. \<not> lt a a)
      \<and> (\<forall>a\<in>K. \<forall>b\<in>K. \<forall>c\<in>K. lt a b \<longrightarrow> lt b c \<longrightarrow> lt a c)
      \<and> (\<forall>a\<in>K. \<forall>b\<in>K. lt a b \<or> a = b \<or> lt b a))"

section \<open>Runs that stay outside the iOS phases\<close>

text \<open>The closure is in no iOS phase and its iOS result is \<open>i\<close>.\<close>

definition outside_ios :: "ios_data \<Rightarrow> closure \<Rightarrow> bool" where
  "outside_ios i s = (\<not> starts_with_ios (current_phase s) \<and> ios (data s) = i)"

text \<open>A statement that enters no iOS phase and, as a bounded wait, only sets a flag.\<close>

fun android_step :: "step \<Rightarrow> bool" where
  "android_step (Phase p) = (\<not> starts_with_ios p)"
| "android_step (Wait_bounded flag force) =
     (\<forall>s. current_phase (force s) = current_phase s \<and> data (force s) = data s)"
| "android_step st = True"

section \<open>Notions for the statements about issue lists\<close>

text \<open>The distinct elements of a list in the order of their first occurrence.\<close>

definition first_seen :: "'a list \<Rightarrow> 'a list" where
  "first_seen xs = rev (remdups (rev xs))"

text \<open>The grouping key of a row read by \<open>issue_fields\<close>, and the row's counts.\<close>

definition row_key :: "phase \<Rightarrow> json \<times> json \<times> int \<times> int \<Rightarrow> json" where
  "row_key ph f = (case f of (sub, tit, impacted, evs) \<Rightarrow> group_key ph sub tit)"

definition row_devices :: "json \<times> json \<times> int \<times> int \<Rightarrow> int" where
  "row_devices f = (case f of (sub, tit, impacted, evs) \<Rightarrow> impacted)"

definition row_events :: "json \<times> json \<times> int \<times> int \<Rightarrow> int" where
  "row_events f = (case f of (sub, tit, impacted, evs) \<Rightarrow> evs)"

text \<open>The entry that an iOS phase keeps for a row.\<close>

definition ios_entry :: "phase \<Rightarrow> json \<times> json \<times> int \<times> int \<Rightarrow> group_entry" where
  "ios_entry ph f = (case f of (sub, tit, impacted, evs) \<Rightarrow>
     \<lparr>title = (if ph = Ios_non_fatals then sub else tit), original_title = tit, subtitle = sub,
      impactedDevicesCount = impacted, eventsCount = evs\<rparr>)"

text \<open>The list of the result that an issue-list response of a phase is appended to.\<close>

definition issue_list :: "phase \<Rightarrow> closure \<Rightarrow> issue_data list" where
  "issue_list ph s =
     (if ph = Crashes then top_crashes (android (data s))
      else if ph = Non_fatals then top_non_fatals (android (data s))
      else if ph = Anrs then all_anrs (android (data s))
      else if ph = Ios_crashes then ios_top_crashes (ios (data s))
      else if ph = Ios_non_fatals then ios_top_non_fatals (ios (data s))
      else [])"

text \<open>The entry that a first row opens outside the iOS phases, and what a later row adds.\<close>

definition new_row :: "phase \<Rightarrow> json \<times> json \<times> int \<times> int \<Rightarrow> group_entry" where
  "new_row ph f = (case f of (sub, tit, impacted, evs) \<Rightarrow>
     \<lparr>title = display_title ph sub tit, original_title = tit, subtitle = sub,
      impactedDevicesCount = impacted, eventsCount = evs\<rparr>)"

definition merge_row :: "json \<times> json \<times> int \<times> int \<Rightarrow> group_entry \<Rightarrow> group_entry" where
  "merge_row f g = g\<lparr>impactedDevicesCount := impactedDevicesCount g + row_devices f,
                      eventsCount := eventsCount g + row_events f\<rparr>"

text \<open>The same for a Play-console cluster read by \<open>anr_fields\<close>.\<close>

definition new_anr :: "json \<times> int \<times> int \<times> pyfloat \<Rightarrow> anr_group" where
  "new_anr a = (case a of (nm, users, cnt, f) \<Rightarrow>
     \<lparr>affected_users = users, event_count = cnt, group_impact = fmul f (Fin 100)\<rparr>)"

definition merge_anr :: "json \<times> int \<times> int \<times> pyfloat \<Rightarrow> anr_group \<Rightarrow> anr_group" where
  "merge_anr a g = (case a of (nm, users, cnt, f) \<Rightarrow>
     g\<lparr>affected_users := affected_users g + users, event_count := event_count g + cnt,
       group_impact := fadd (group_impact g) (fmul f (Fin 100))\<rparr>)"

definition anr_users :: "json \<times> int \<times> int \<times> pyfloat \<Rightarrow> int" where
  "anr_users a = (case a of (nm, users, cnt, f) \<Rightarrow> users)"

definition anr_count :: "json \<times> int \<times> int \<times> pyfloat \<Rightarrow> int" where
  "anr_count a = (case a of (nm, users, cnt, f) \<Rightarrow> cnt)"



text \<open>
  The date that the selection loop reads from a projection (none when \<^verbatim>\<open>startTime\<close> is
  missing, empty or does not parse), and its test: the date is today or yesterday.
\<close>

definition projection_date :: "pylib \<Rightarrow> json \<Rightarrow> int option" where
  "projection_date L projection =
     (case py_get projection ''startTime'' (JStr []) of
        None \<Rightarrow> None
      | Some start_time_str \<Rightarrow> if py_truthy start_time_str then parse_date L start_time_str else None)"

definition recent :: "pylib \<Rightarrow> int \<Rightarrow> json \<Rightarrow> bool" where
  "recent L today projection \<longleftrightarrow>
     projection_date L projection = Some today \<or> projection_date L projection = Some (today - 1)"

text \<open>
  The selection as the specification words it: the projection dated today or, failing
  that, the one dated yesterday.
\<close>

definition spec_select_projection :: "pylib \<Rightarrow> int \<Rightarrow> json list \<Rightarrow> json option" where
  "spec_select_projection L today ps =
     (case find (\<lambda>p. projection_date L p = Some today) ps of
        Some p \<Rightarrow> Some p
      | None \<Rightarrow> find (\<lambda>p. projection_date L p = Some (today - 1)) ps)"

text \<open>What the handler does when it stores a launch time.\<close>

definition store_p90 :: "pyfloat \<Rightarrow> closure \<Rightarrow> closure" where
  "store_p90 v s =
     (upd_android (\<lambda>a. a\<lparr>p90_launch_time_seconds := Some v\<rparr>) s)\<lparr>android_p90_launch_captured := True\<rparr>"


section \<open>Inputs for the worked examples\<close>

text \<open>
  A library instance for the examples: the parsers as finite tables over the strings
  the examples use. \<open>release-2.0\<close> stands for the text of an analytics
  response that names release 2.0. A date is the day number of \<^verbatim>\<open>date.toordinal()\<close>; 2024-03-10 is day
  738955.
\<close>

definition demo_lib :: pylib where
  "demo_lib =
     \<lparr>int_of_str = map_of [(''0'', 0), (''5'', 5), (''10'', 10), (''20'', 20), (''50'', 50),
                           (''1000'', 1000)],
      float_of_str = (\<lambda>s. None),
      json_loads = map_of [(''release-2.0'',
          JObj [(''default'', JObj [(''responses'', JArr [JObj [], JObj [],
            JObj [(''responseRows'', JArr [JObj [(''dimensionCompoundValues'',
              JArr [JStr ''2.0''])]])]])])])],
      fromisoformat_date = map_of [(''2024-02-10T00:00:00+00:00'', 738926),
                                   (''2024-03-04T00:00:00+00:00'', 738949),
                                   (''2024-03-09T00:00:00+00:00'', 738954),
                                   (''2024-03-10T00:00:00+00:00'', 738955)],
      str_of = (\<lambda>j. case j of JStr s \<Rightarrow> s | _ \<Rightarrow> [])\<rparr>"

text \<open>The first entry of \<^verbatim>\<open>APPS_CONFIG\<close>, an app without iOS.\<close>

definition android_only :: app_config where
  "android_only = \<lparr>config_name = ''Partner App'', firebase_project = ''driverapp-f56a2'',
     android_app_id = ''android:com.theporter.android.driverapp'',
     package_name = ''com.theporter.android.driverapp'',
     developer_id = ''4707055851875633325'', pc_app_id = ''4972278085731896191'',
     ios_app = None, has_ios = Some False, has_p90_launch_time = Some True\<rparr>"

definition demo_urls :: urls where
  "demo_urls = \<lparr>firebase_url = ''f'', top_crashes_url = ''c'', top_non_fatals_url = ''n'',
     top_anrs_url = ''a'', play_console_anr_url = ''p'', android_p90_launch_url = None,
     ios_crashes_url = None, ios_non_fatals_url = None, ios_dominant_release_url = None,
     android_dominant_release_url = Some ''d''\<rparr>"

text \<open>An environment in which no response ever arrives and no call raises.\<close>

definition silent :: environment where
  "silent = \<lparr>arrivals = (\<lambda>n. []), raises = (\<lambda>n. False), vitals = None\<rparr>"



text \<open>A top-issues response without a body, as it may arrive in any phase.\<close>

definition stray_issues :: response where
  "stray_issues = \<lparr>url = ''metrics:listFirebaseTopOpenIssues'', post_data = None,
     resp_json = None, resp_text = None\<rparr>"

text \<open>
  A metrics report with a FATAL and a NON_FATAL row, ratios 0.97 and 0.95 (the floats
  nearest to these decimals) and 1000 installs each, for the given time range.
\<close>

definition metrics_row :: "string \<Rightarrow> rat \<Rightarrow> string \<Rightarrow> string \<Rightarrow> json" where
  "metrics_row fatality ratio start_time end_time =
     JObj [(''fatality'', JStr fatality),
           (''intervalMetrics'', JArr [JObj [
              (''startTime'', JStr start_time), (''endTime'', JStr end_time),
              (''crashlyticsEventFreeUsersCombined'', JObj [(''ratio'', JFloat (b64 ratio))]),
              (''totalCrashlyticsInstalls'', JStr ''1000'')]])]"

definition metrics_report :: "string \<Rightarrow> string \<Rightarrow> response" where
  "metrics_report start_time end_time =
     \<lparr>url = ''metrics:getMetricsReport'', post_data = None,
      resp_json = Some (JObj [(''groupedMetrics'',
        JArr [metrics_row ''FATAL'' (97 / 100) start_time end_time,
              metrics_row ''NON_FATAL'' (95 / 100) start_time end_time])]),
      resp_text = None\<rparr>"

text \<open>Two Play-console clusters with the impact values 1.5 and 2.5 per cent.\<close>

definition two_clusters :: "(json \<times> anr_group) list" where
  "two_clusters =
     [(JStr ''a'', \<lparr>affected_users = 1, event_count = 2, group_impact = Fin (3 / 2)\<rparr>),
      (JStr ''b'', \<lparr>affected_users = 3, event_count = 4, group_impact = Fin (5 / 2)\<rparr>)]"

text \<open>
  A run for an app without iOS: a metrics report with one ANR row of the expected
  window answers the first and the fourth navigation, an empty issue list the second
  and the third, and nothing arrives afterwards.
\<close>

definition anr_report :: response where
  "anr_report =
     \<lparr>url = ''metrics:getMetricsReport'', post_data = None,
      resp_json = Some (JObj [(''groupedMetrics'',
        JArr [metrics_row ''ANR'' (99 / 100) ''2024-03-04T00:00:00Z'' ''2024-03-10T00:00:00Z''])]),
      resp_text = None\<rparr>"

definition no_issues :: response where
  "no_issues = \<lparr>url = ''metrics:listFirebaseTopOpenIssues'', post_data = None,
     resp_json = Some (JObj [(''topIssues'', JArr [])]), resp_text = None\<rparr>"

definition android_run :: environment where
  "android_run =
     \<lparr>arrivals = (\<lambda>n. if n = 0 \<or> n = 6 then [\<lparr>ev_today = 738955, ev_response = anr_report\<rparr>]
                      else if n = 2 \<or> n = 4 then [\<lparr>ev_today = 738955, ev_response = no_issues\<rparr>]
                      else []),
      raises = (\<lambda>n. False), vitals = None\<rparr>"

text \<open>
  An issue list with two rows that share title and subtitle, with 10 devices and 50
  events and with 5 devices and 20 events.
\<close>

definition issue_row :: "string \<Rightarrow> string \<Rightarrow> string \<Rightarrow> string \<Rightarrow> json" where
  "issue_row tit sub devices evs =
     JObj [(''caption'', JObj [(''title'', JStr tit), (''subtitle'', JStr sub)]),
           (''impactedDevicesCount'', JStr devices), (''eventsCount'', JStr evs)]"

definition two_rows :: "json list" where
  "two_rows = [issue_row ''java.lang'' ''NullPointerException'' ''10'' ''50'',
               issue_row ''java.lang'' ''NullPointerException'' ''5'' ''20'']"

definition two_issues :: response where
  "two_issues =
     \<lparr>url = ''metrics:listFirebaseTopOpenIssues'', post_data = None,
      resp_json = Some (JObj [(''topIssues'', JArr two_rows)]), resp_text = None\<rparr>"


definition ios_crashes_phase :: closure where
  "ios_crashes_phase = (initial_closure ''customer'' android_only)
     \<lparr>metrics_captured := True, ios_metrics_captured := True, current_phase := Ios_crashes\<rparr>"

text \<open>
  Launch-time timelines: a projection with its start time and quantiles, a response
  with one timeline, and 19 quantiles with a given last one.
\<close>

definition projection_of :: "string \<Rightarrow> json list \<Rightarrow> json" where
  "projection_of start_time qs =
     JObj [(''startTime'', JStr start_time), (''projection'', JObj [(''quantiles'', JArr qs)])]"

definition timeline :: "json list \<Rightarrow> response" where
  "timeline ps =
     \<lparr>url = ''traces/_as:listTimelines'', post_data = None,
      resp_json = Some (JObj [(''timelines'', JArr [JObj [(''projections'', JArr ps)]])]),
      resp_text = None\<rparr>"

definition buckets :: "int \<Rightarrow> json list" where
  "buckets v = replicate 18 (JInt 0) @ [JInt v]"

definition p90_phase :: closure where
  "p90_phase = (initial_closure ''partner'' android_only)\<lparr>current_phase := Android_p90_launch\<rparr>"

text \<open>
  Three timelines for the day 2024-03-10: yesterday's projection (2 s) in front of
  today's (1 s), one old projection, and today's projection with 18 quantiles.
\<close>

definition two_days :: response where
  "two_days = timeline [projection_of ''2024-03-09T00:00:00Z'' (buckets 2000000),
                        projection_of ''2024-03-10T00:00:00Z'' (buckets 1000000)]"

definition old_day :: response where
  "old_day = timeline [projection_of ''2024-02-10T00:00:00Z'' (buckets 2000000)]"

definition short_day :: response where
  "short_day = timeline [projection_of ''2024-03-10T00:00:00Z'' (replicate 18 (JInt 0))]"


section \<open>Facts about the float model\<close>

lemma powi2_mono: "a \<le> b \<Longrightarrow> (2::rat) powi a \<le> 2 powi b"
  by (rule power_int_increasing) auto

lemma powi2_less_imp: "(2::rat) powi a < 2 powi b \<Longrightarrow> a < b"
  by (metis linorder_not_less powi2_mono)

lemma ilog2_unique:
  assumes "(2::rat) powi k \<le> x" "x < 2 powi (k + 1)" "2 powi j \<le> x" "x < 2 powi (j + 1)"
  shows "j = k"
proof -
  have "(2::rat) powi k < 2 powi (j + 1)" using assms by linarith
  then have "k < j + 1" by (rule powi2_less_imp)
  moreover have "(2::rat) powi j < 2 powi (k + 1)" using assms by linarith
  then have "j < k + 1" by (rule powi2_less_imp)
  ultimately show ?thesis by simp
qed

lemma of_int_powi_bounds:
  assumes "0 < (p::int)"
  shows "(2::rat) powi (bitlen p - 1) \<le> of_int p \<and> of_int p < (2::rat) powi (bitlen p)"
proof -
  from bitlen_bounds[OF assms] have b: "2 ^ nat (bitlen p - 1) \<le> p" "p < 2 ^ nat (bitlen p)" by auto
  have b1: "1 \<le> bitlen p" using assms bitlen_eq_zero_iff[of p] bitlen_nonneg[of p] by linarith
  have "(of_int (2 ^ nat (bitlen p - 1)) :: rat) \<le> of_int p" using b(1) by (simp only: of_int_le_iff)
  moreover have "(of_int p :: rat) < of_int (2 ^ nat (bitlen p))" using b(2) by (simp only: of_int_less_iff)
  ultimately show ?thesis using b1 by (simp add: power_int_def)
qed

lemma ilog2_bounds:
  assumes "0 < x"
  shows "2 powi (ilog2 x) \<le> x \<and> x < 2 powi (ilog2 x + 1)"
proof -
  obtain p q where pq: "quotient_of x = (p, q)" by (cases "quotient_of x")
  then have q: "0 < q" and x: "x = of_int p / of_int q"
    by (simp_all add: quotient_of_denom_pos quotient_of_div)
  from assms x q have p: "0 < p" by (simp add: zero_less_divide_iff)
  let ?bp = "bitlen p" and ?bq = "bitlen q"
  from of_int_powi_bounds[OF p] have P1: "(2::rat) powi (?bp - 1) \<le> of_int p"
    and P2: "of_int p < (2::rat) powi ?bp" by auto
  from of_int_powi_bounds[OF q] have Q1: "(2::rat) powi (?bq - 1) \<le> of_int q"
    and Q2: "of_int q < (2::rat) powi ?bq" by auto
  have qpos: "(0::rat) < of_int q" using q by simp
  let ?e = "?bp - ?bq"
  have lo: "(2::rat) powi (?e - 1) \<le> x"
  proof -
    have "(2::rat) powi (?e - 1) * of_int q \<le> 2 powi (?e - 1) * 2 powi ?bq"
      using Q2 by (intro mult_left_mono) auto
    also have "\<dots> = 2 powi (?bp - 1)" by (simp flip: power_int_add)
    also have "\<dots> \<le> of_int p" by (rule P1)
    finally show ?thesis using qpos by (simp add: x pos_le_divide_eq)
  qed
  have hi: "x < (2::rat) powi (?e + 1)"
  proof -
    have "of_int p < (2::rat) powi ?bp" by (rule P2)
    also have "\<dots> = 2 powi (?e + 1) * 2 powi (?bq - 1)" by (simp flip: power_int_add)
    also have "\<dots> \<le> 2 powi (?e + 1) * of_int q"
      using Q1 by (intro mult_left_mono) auto
    finally show ?thesis using qpos by (simp add: x pos_divide_less_eq)
  qed
  show ?thesis
  proof (cases "(2::rat) powi ?e \<le> x")
    case True
    then have "ilog2 x = ?e" by (simp add: ilog2_def pq Let_def)
    with True hi show ?thesis by simp
  next
    case False
    then have "ilog2 x = ?e - 1" by (simp add: ilog2_def pq Let_def)
    with False lo show ?thesis by simp
  qed
qed

lemma ilog2_eqI:
  assumes "(2::rat) powi k \<le> x" "x < 2 powi (k + 1)"
  shows "ilog2 x = k"
proof -
  have "0 < (2::rat) powi k" by simp
  with assms have "0 < x" by linarith
  from ilog2_bounds[OF this] assms show ?thesis
    using ilog2_unique by blast
qed

lemma round_half_even_eqI:
  assumes "\<bar>x - of_int m\<bar> < 1 / 2"
  shows "round_half_even x = m"
proof -
  from assms have a: "x < of_int m + 1 / 2" "of_int m - 1 / 2 < x" by linarith+
  show ?thesis
  proof (cases "of_int m \<le> x")
    case True
    then have "\<lfloor>x\<rfloor> = m" using a by (intro floor_unique) auto
    then show ?thesis using a by (simp add: round_half_even_def Let_def)
  next
    case False
    then have f: "\<lfloor>x\<rfloor> = m - 1" using a by (intro floor_unique) auto
    have "\<not> x - of_int (m - 1) < 1 / 2" using a by simp
    moreover have "1 / 2 < x - of_int (m - 1)" using a by simp
    ultimately show ?thesis by (simp add: round_half_even_def Let_def f)
  qed
qed

lemma round_half_even_of_int [simp]: "round_half_even (of_int m) = m"
  by (rule round_half_even_eqI) simp

text \<open>
  How a rounding is computed by hand: with the binary exponent \<open>k\<close> of \<open>x\<close> and the
  integer \<open>m\<close> nearest to \<open>x / 2 powi (k - 52)\<close>, the result is \<open>m * 2 powi (k - 52)\<close>.
\<close>

lemma b64_eqI:
  assumes "(2::rat) powi k \<le> \<bar>x\<bar>" "\<bar>x\<bar> < 2 powi (k + 1)" "- 1022 \<le> k"
    and "round_half_even (x / 2 powi (k - 52)) = m"
    and "\<bar>of_int m * 2 powi (k - 52)\<bar> < (2::rat) ^ 1024"
  shows "b64 x = Fin (of_int m * 2 powi (k - 52))"
proof -
  have "0 < (2::rat) powi k" by simp
  with assms(1) have "0 < \<bar>x\<bar>" by linarith
  then have "x \<noteq> 0" by simp
  moreover have "ilog2 \<bar>x\<bar> = k" using assms(1,2) by (rule ilog2_eqI)
  moreover have "max (k - 52) (- 1074) = k - 52" using assms(3) by simp
  ultimately show ?thesis using assms(4,5) by (simp add: b64_def Let_def)
qed

section \<open>The bounded waits\<close>

lemma wait_loop_props:
  "wait_loop H E flag t c e = (c', e') \<Longrightarrow> e \<le> t \<Longrightarrow>
     e \<le> e' \<and> e' \<le> t \<and> c' = (sleep H E ^^ (e' - e)) c \<and> (flag (fst c') \<or> e' = t)
     \<and> (\<forall>k < e' - e. \<not> flag (fst ((sleep H E ^^ k) c)))"
proof (induction H E flag t c e arbitrary: c' e' rule: wait_loop.induct)
  case (1 H E flag t c e)
  show ?case
  proof (cases "\<not> flag (fst c) \<and> e < t")
    case True
    with "1.prems" have rec: "wait_loop H E flag t (sleep H E c) (e + 1) = (c', e')"
      by (simp add: wait_loop.simps[of H E flag t c e])
    from True have "e + 1 \<le> t" by simp
    from "1.IH"[OF True rec this]
    have ih: "e + 1 \<le> e'" "e' \<le> t" "c' = (sleep H E ^^ (e' - (e + 1))) (sleep H E c)"
      "flag (fst c') \<or> e' = t"
      "\<forall>k < e' - (e + 1). \<not> flag (fst ((sleep H E ^^ k) (sleep H E c)))" by auto
    have eq: "e' - e = Suc (e' - (e + 1))" using ih(1) by simp
    have c': "c' = (sleep H E ^^ (e' - e)) c"
      unfolding eq using ih(3) by (simp add: funpow_swap1)
    have nf: "\<forall>k < e' - e. \<not> flag (fst ((sleep H E ^^ k) c))"
    proof (intro allI impI)
      fix k assume k: "k < e' - e"
      show "\<not> flag (fst ((sleep H E ^^ k) c))"
      proof (cases k)
        case 0 then show ?thesis using True by simp
      next
        case (Suc j)
        with k have "j < e' - (e + 1)" by simp
        with ih(5) have "\<not> flag (fst ((sleep H E ^^ j) (sleep H E c)))" by blast
        then show ?thesis using Suc by (simp add: funpow_swap1)
      qed
    qed
    from ih c' nf show ?thesis by simp
  next
    case False
    with "1.prems" have "c' = c" "e' = e"
      by (simp_all add: wait_loop.simps[of H E flag t c e])
    with False "1.prems" show ?thesis by auto
  qed
qed

lemma snd_sleep_funpow: "snd ((sleep H E ^^ k) c) = snd c + k"
  by (induction k) (simp_all add: sleep_def)

lemma bounded_step_cases:
  assumes "Wait_bounded flag force \<in> set (all_steps cfg u)"
  shows "\<forall>s. flag (force s)"
  using assms
  by (auto simp: all_steps_def android_steps_def ios_steps_def play_console_steps_def
      ios_dominant_steps_def android_dominant_steps_def p90_steps_def
      split: option.splits if_splits)

lemma bounded_wait_general:
  assumes f: "\<forall>s. flag (force s)"
    and w: "wait_loop H E flag n c 0 = (c', e')"
    and bw: "b = (if \<not> flag (fst c') then (force (fst c'), snd c') else c')"
  shows "flag (fst b) \<and> snd b \<le> snd c + n
       \<and> ((\<forall>k \<le> n. \<not> flag (fst ((sleep H E ^^ k) c))) \<longrightarrow>
            b = (force (fst ((sleep H E ^^ n) c)), snd c + n))"
proof -
  from wait_loop_props[OF w]
  have p: "e' \<le> n" "c' = (sleep H E ^^ e') c" "flag (fst c') \<or> e' = n" by auto
  have 1: "flag (fst b)" using f by (simp add: bw)
  have sc: "snd c' = snd c + e'" by (simp add: p(2) snd_sleep_funpow)
  then have 2: "snd b \<le> snd c + n" using p(1) by (simp add: bw)
  have 3: "b = (force (fst ((sleep H E ^^ n) c)), snd c + n)"
    if never: "\<forall>k \<le> n. \<not> flag (fst ((sleep H E ^^ k) c))"
  proof -
    from never p(1) have "\<not> flag (fst ((sleep H E ^^ e') c))" by blast
    then have nf: "\<not> flag (fst c')" using p(2) by blast
    with p(3) have e: "e' = n" by blast
    from nf have "b = (force (fst c'), snd c')" by (simp add: bw)
    then show ?thesis using sc p(2) e by blast
  qed
  from 1 2 3 show ?thesis by blast
qed

text \<open>
  Claim C9. Every bounded wait of the sequence (iOS metrics, iOS crashes, iOS non-fatals,
  Play-console ANRs, the two dominant-release phases, launch time) ends with its flag
  true after at most 120 polls of one second; when the flag is false at every poll, the
  loop makes exactly 120 polls and the flag is then set by the sequencer; in either case
  the sequence goes on with the statements behind the wait.
\<close>

theorem bounded_wait_forces_flag:
  assumes "Wait_bounded flag force \<in> set (all_steps cfg u)"
  shows "flag (fst (bounded_wait H E flag force c))
       \<and> snd (bounded_wait H E flag force c) \<le> snd c + 120
       \<and> ((\<forall>k \<le> 120. \<not> flag (fst ((sleep H E ^^ k) c))) \<longrightarrow>
            bounded_wait H E flag force c = (force (fst ((sleep H E ^^ 120) c)), snd c + 120))
       \<and> run_steps H E (Wait_bounded flag force # rest) c
            = run_steps H E rest (bounded_wait H E flag force c)"
proof -
  obtain c' e' where w: "wait_loop H E flag 120 c 0 = (c', e')"
    by (cases "wait_loop H E flag 120 c 0")
  have f: "\<forall>s. flag (force s)" using assms by (rule bounded_step_cases)
  have bw: "bounded_wait H E flag force c = (if \<not> flag (fst c') then (force (fst c'), snd c') else c')"
    by (simp only: bounded_wait_def w prod.case)
  have 4: "run_steps H E (Wait_bounded flag force # rest) c
            = run_steps H E rest (bounded_wait H E flag force c)"
    by (simp only: run_steps.simps run_step.simps outcome.case)
  from bounded_wait_general[OF f w bw] 4 show ?thesis by blast
qed

theorem bounded_wait_forces_flag_witness:
  "Wait_bounded play_console_anrs_captured (\<lambda>s. s\<lparr>play_console_anrs_captured := True\<rparr>)
      \<in> set (all_steps android_only demo_urls)
   \<and> play_console_anrs_captured
        (fst (bounded_wait (handle_response demo_lib 7 (pc_app_id android_only)) silent
               play_console_anrs_captured (\<lambda>s. s\<lparr>play_console_anrs_captured := True\<rparr>)
               (initial_closure ''partner'' android_only, 0)))"
proof -
  have m: "Wait_bounded play_console_anrs_captured (\<lambda>s. s\<lparr>play_console_anrs_captured := True\<rparr>)
      \<in> set (all_steps android_only demo_urls)"
    by (simp add: all_steps_def play_console_steps_def demo_urls_def)
  from bounded_wait_forces_flag[OF m] m show ?thesis by blast
qed


section \<open>Responses outside their phase\<close>

lemma handle_p90_skip:
  "\<not> accepted_in pc (url r) (current_phase s) \<Longrightarrow> handle_p90 L today r s = s"
  by (auto simp: handle_p90_def accepted_in_def)

lemma handle_dominant_release_skip:
  "\<not> accepted_in pc (url r) (current_phase s) \<Longrightarrow> handle_dominant_release L r s = s"
  by (auto simp: handle_dominant_release_def accepted_in_def)

lemma handle_play_console_skip:
  "\<not> accepted_in pc (url r) (current_phase s) \<Longrightarrow> handle_play_console L pc r s = s"
  by (auto simp: handle_play_console_def accepted_in_def)

lemma issues_guard_skip:
  "current_phase s \<noteq> Crashes \<Longrightarrow> current_phase s \<noteq> Non_fatals \<Longrightarrow> current_phase s \<noteq> Anrs
   \<Longrightarrow> current_phase s \<noteq> Ios_crashes \<Longrightarrow> current_phase s \<noteq> Ios_non_fatals
   \<Longrightarrow> issues_guard s = Skip"
  by (simp add: issues_guard_def)

lemma handle_reports_skip:
  assumes "metrics_captured s \<or> current_phase s = Metrics"
    and "\<not> accepted_in pc (url r) (current_phase s)"
  shows "handle_reports L days today r s = s"
proof (cases "contains ''metrics:getMetricsReport'' (url r)")
  case True
  with assms(2) have ph: "current_phase s \<noteq> Metrics" "current_phase s \<noteq> Anr_metrics"
    "current_phase s \<noteq> Ios_metrics" "current_phase s \<noteq> Ios_crashes" "current_phase s \<noteq> Ios_non_fatals"
    by (auto simp: accepted_in_def)
  with assms(1) have mc: "metrics_captured s" by simp
  show ?thesis
  proof (cases "contains ''metrics:listFirebaseTopOpenIssues'' (url r)")
    case True
    with assms(2) have "current_phase s \<noteq> Crashes" "current_phase s \<noteq> Non_fatals" "current_phase s \<noteq> Anrs"
      by (auto simp: accepted_in_def)
    with ph have "issues_guard s = Skip" by (simp add: issues_guard_skip)
    then show ?thesis using ph mc by (simp add: handle_reports_def handle_top_issues_def)
  next
    case False
    then show ?thesis using ph mc by (simp add: handle_reports_def)
  qed
next
  case False
  show ?thesis
  proof (cases "contains ''metrics:listFirebaseTopOpenIssues'' (url r)")
    case True
    with assms(2) have "current_phase s \<noteq> Crashes" "current_phase s \<noteq> Non_fatals" "current_phase s \<noteq> Anrs"
      "current_phase s \<noteq> Ios_crashes" "current_phase s \<noteq> Ios_non_fatals"
      by (auto simp: accepted_in_def)
    then have "issues_guard s = Skip" by (simp add: issues_guard_skip)
    then show ?thesis using False by (simp add: handle_reports_def handle_top_issues_def)
  next
    case F2: False
    then show ?thesis using False by (simp add: handle_reports_def)
  qed
qed

text \<open>
  Claim C4. A response is ignored, and the closure with the app result in it stays as
  it is, whenever the active phase is none of the phases in which the handler looks
  at a response with that URL. The first premise holds throughout a run: the phase
  \<open>Metrics\<close> is left only once \<^verbatim>\<open>metrics_captured\<close> is set, and the flag is never reset.
\<close>

theorem stray_response_ignored:
  assumes "metrics_captured s \<or> current_phase s = Metrics"
    and "\<not> accepted_in pc (url r) (current_phase s)"
  shows "handle_response L days pc today r s = s"
  using assms
  by (simp add: handle_response_def handle_p90_skip handle_dominant_release_skip
      handle_play_console_skip handle_reports_skip)

lemma contains_same [simp]: "contains s s" 
  by (cases s) simp_all

theorem stray_response_ignored_witness:
  "(metrics_captured (initial_closure ''partner'' android_only)
      \<or> current_phase (initial_closure ''partner'' android_only) = Metrics)
   \<and> \<not> accepted_in (pc_app_id android_only) (url stray_issues)
          (current_phase (initial_closure ''partner'' android_only))
   \<and> handle_response demo_lib 7 (pc_app_id android_only) 738955 stray_issues
        (initial_closure ''partner'' android_only) = initial_closure ''partner'' android_only"
proof -
  have a: "current_phase (initial_closure ''partner'' android_only) = Metrics"
    by (simp add: initial_closure_def)
  have b: "\<not> accepted_in (pc_app_id android_only) (url stray_issues)
          (current_phase (initial_closure ''partner'' android_only))"
    by (simp add: a accepted_in_def stray_issues_def)
  from stray_response_ignored[OF disjI2[OF a] b] a b show ?thesis by blast
qed

section \<open>At most one acceptance\<close>





section \<open>Rates come from reports of the expected window only\<close>

lemma rate_fields_flags [simp]:
  "rate_fields (s\<lparr>android_p90_launch_captured := b\<rparr>) = rate_fields s"
  "rate_fields (s\<lparr>ios_dominant_release_captured := b\<rparr>) = rate_fields s"
  "rate_fields (s\<lparr>android_dominant_release_captured := b\<rparr>) = rate_fields s"
  "rate_fields (s\<lparr>play_console_anrs_captured := b\<rparr>) = rate_fields s"
  "rate_fields (s\<lparr>ios_nonfatal_issues_processed := b\<rparr>) = rate_fields s"
  "rate_fields (s\<lparr>crashes_captured := b\<rparr>) = rate_fields s"
  "rate_fields (s\<lparr>non_fatals_captured := b\<rparr>) = rate_fields s"
  "rate_fields (s\<lparr>ios_crashes_captured := b\<rparr>) = rate_fields s"
  "rate_fields (s\<lparr>ios_non_fatals_captured := b\<rparr>) = rate_fields s"
  "rate_fields (s\<lparr>ios_metrics_captured := b\<rparr>) = rate_fields s"
  by (simp_all add: rate_fields_def)

lemma handle_p90_rates: "rate_fields (handle_p90 L today r s) = rate_fields s"
  by (simp add: handle_p90_def rate_fields_def upd_android_def split: option.splits)

lemma handle_dominant_release_rates: "rate_fields (handle_dominant_release L r s) = rate_fields s"
  by (simp add: handle_dominant_release_def rate_fields_def upd_android_def upd_ios_def split: option.splits)

lemma handle_play_console_rates: "rate_fields (handle_play_console L pc r s) = rate_fields s"
  by (simp add: handle_play_console_def rate_fields_def upd_android_def split: option.splits)

lemma add_issue_rates: "rate_fields (add_issue ph i s) = rate_fields s"
  by (simp add: add_issue_def rate_fields_def upd_android_def upd_ios_def)

lemma store_issues_rates:
  "store_issues ph n i gs s = (s', ok) \<Longrightarrow> rate_fields s' = rate_fields s"
  by (induction ph n i gs s rule: store_issues.induct)
     (auto simp: add_issue_rates split: option.splits)

lemma set_issue_flag_rates: "rate_fields (set_issue_flag ph s) = rate_fields s"
  by (simp add: set_issue_flag_def)

lemma handle_top_issues_rates: "rate_fields (handle_top_issues L r s) = rate_fields s"
proof (cases "issues_guard s")
  case (Process n)
  show ?thesis
  proof (cases "grouped_of_response L (current_phase s) r")
    case None
    then show ?thesis using Process by (simp add: handle_top_issues_def)
  next
    case (Some g)
    obtain s' ok where st: "store_issues (current_phase s) n 1 (top_issues g) s = (s', ok)"
      by (cases "store_issues (current_phase s) n 1 (top_issues g) s")
    from store_issues_rates[OF st] show ?thesis
      using Process Some st by (cases ok) (simp_all add: handle_top_issues_def set_issue_flag_rates)
  qed
qed (simp_all add: handle_top_issues_def)

lemma handle_anr_metrics_rates: "rate_fields (handle_anr_metrics L days today r s) = rate_fields s"
  by (simp add: handle_anr_metrics_def rate_fields_def split: option.splits)

lemma ungated_android:
  "gated_rows L days today r = Some None \<Longrightarrow> handle_android_metrics L days today r s = s"
  by (simp add: handle_android_metrics_def)

lemma ungated_ios:
  "gated_rows L days today r = Some None \<Longrightarrow> handle_ios_metrics L days today r s = s"
  by (simp add: handle_ios_metrics_def)

lemma handle_reports_rates:
  assumes "gated_rows L days today r = Some None"
  shows "rate_fields (handle_reports L days today r s) = rate_fields s"
  using assms
  by (simp add: handle_reports_def ungated_android ungated_ios handle_anr_metrics_rates
      handle_top_issues_rates)

lemma handle_response_rates:
  assumes "gated_rows L days today r = Some None"
  shows "rate_fields (handle_response L days pc today r s) = rate_fields s"
  by (simp add: handle_response_def handle_reports_rates[OF assms] handle_play_console_rates
      handle_dominant_release_rates handle_p90_rates)

lemma invalid_range_not_gated:
  assumes j: "resp_json r = Some j"
    and gm: "py_get j ''groupedMetrics'' (JArr []) = Some gm"
    and g0: "py_index gm 0 = Some g0"
    and i0: "interval0 g0 = Some i0"
    and st: "py_get i0 ''startTime'' (JStr []) = Some start_time"
    and en: "py_get i0 ''endTime'' (JStr []) = Some end_time"
    and bad: "parse_date L end_time \<noteq> Some today \<or> parse_date L start_time \<noteq> Some (today - (days - 1))"
  shows "gated_rows L days today r = Some None"
proof -
  from i0 obtain im where im: "py_subscript g0 ''intervalMetrics'' = Some im" "py_index im 0 = Some i0"
    by (auto simp: interval0_def split: Option.bind_splits)
  from im(1) obtain kvs where k: "g0 = JObj kvs" "map_of kvs ''intervalMetrics'' = Some im"
    by (cases g0) auto
  have tg: "py_truthy gm" using g0 by (cases gm) auto
  have ti: "py_truthy im" using im(2) by (cases im) auto
  have get: "py_get g0 ''intervalMetrics'' JNull = Some im" using k by simp
  have nv: "\<not> is_valid_date_range L days today start_time end_time"
    using bad by (auto simp: is_valid_date_range_def split: option.splits)
  have "date_range_gate L days today gm = Some False"
    using tg g0 get ti im st en nv by (simp add: date_range_gate_def)
  then show ?thesis using j gm by (simp add: gated_rows_def)
qed

text \<open>
  Claim C1. A response whose first interval carries a date range that fails the check
  (the end date is not today, or the start date is not \<open>days - 1\<close> days before today)
  leaves the crash-free rates and the install totals of both platforms as they are,
  whatever its URL and the phase.
\<close>

theorem invalid_range_keeps_rates:
  assumes "resp_json r = Some j"
    and "py_get j ''groupedMetrics'' (JArr []) = Some gm"
    and "py_index gm 0 = Some g0"
    and "interval0 g0 = Some i0"
    and "py_get i0 ''startTime'' (JStr []) = Some start_time"
    and "py_get i0 ''endTime'' (JStr []) = Some end_time"
    and "parse_date L end_time \<noteq> Some today \<or> parse_date L start_time \<noteq> Some (today - (days - 1))"
  shows "rate_fields (handle_response L days pc today r s) = rate_fields s"
  by (rule handle_response_rates) (rule invalid_range_not_gated[OF assms])

lemma replace_Z_dates [simp]:
  "replace_Z ''2024-02-10T00:00:00Z'' = ''2024-02-10T00:00:00+00:00''"
  "replace_Z ''2024-03-04T00:00:00Z'' = ''2024-03-04T00:00:00+00:00''"
  "replace_Z ''2024-03-09T00:00:00Z'' = ''2024-03-09T00:00:00+00:00''"
  "replace_Z ''2024-03-10T00:00:00Z'' = ''2024-03-10T00:00:00+00:00''"
  by (simp_all add: replace_Z_def)

theorem invalid_range_keeps_rates_witness:
  "parse_date demo_lib (JStr ''2024-02-10T00:00:00Z'') \<noteq> Some (738955 - (7 - 1))
   \<and> rate_fields (handle_response demo_lib 7 (pc_app_id android_only) 738955
        (metrics_report ''2024-02-10T00:00:00Z'' ''2024-03-10T00:00:00Z'')
        (initial_closure ''partner'' android_only))
     = rate_fields (initial_closure ''partner'' android_only)"
proof -
  let ?r = "metrics_report ''2024-02-10T00:00:00Z'' ''2024-03-10T00:00:00Z''"
  let ?row = "metrics_row ''FATAL'' (97 / 100) ''2024-02-10T00:00:00Z'' ''2024-03-10T00:00:00Z''"
  let ?gm = "JArr [?row, metrics_row ''NON_FATAL'' (95 / 100) ''2024-02-10T00:00:00Z'' ''2024-03-10T00:00:00Z'']"
  let ?i0 = "JObj [(''startTime'', JStr ''2024-02-10T00:00:00Z''), (''endTime'', JStr ''2024-03-10T00:00:00Z''),
              (''crashlyticsEventFreeUsersCombined'', JObj [(''ratio'', JFloat (b64 (97 / 100)))]),
              (''totalCrashlyticsInstalls'', JStr ''1000'')]"
  have 1: "resp_json ?r = Some (JObj [(''groupedMetrics'', ?gm)])" by (simp add: metrics_report_def)
  have 2: "py_get (JObj [(''groupedMetrics'', ?gm)]) ''groupedMetrics'' (JArr []) = Some ?gm" by simp
  have 3: "py_index ?gm 0 = Some ?row" by simp
  have 4: "interval0 ?row = Some ?i0" by (simp add: interval0_def metrics_row_def)
  have 5: "py_get ?i0 ''startTime'' (JStr []) = Some (JStr ''2024-02-10T00:00:00Z'')" by simp
  have 6: "py_get ?i0 ''endTime'' (JStr []) = Some (JStr ''2024-03-10T00:00:00Z'')" by simp
  have 7: "parse_date demo_lib (JStr ''2024-02-10T00:00:00Z'') \<noteq> Some (738955 - (7 - 1))"
    by (simp add: demo_lib_def)
  from invalid_range_keeps_rates[OF 1 2 3 4 5 6 disjI2[OF 7]] 7 show ?thesis by blast
qed

section \<open>Top-3 selection\<close>

lemma set_insort_desc [simp]: "set (insort_desc lt key x ys) = insert x (set ys)"
  by (induction ys) auto

lemma length_insort_desc [simp]: "length (insort_desc lt key x ys) = Suc (length ys)"
  by (induction ys) auto

lemma insort_desc_sorted:
  assumes K: "strict_linear_on K lt" and x: "key x \<in> K" and ys: "key ` set ys \<subseteq> K"
    and s: "sorted_wrt (\<lambda>a b. \<not> lt (key a) (key b)) ys"
  shows "sorted_wrt (\<lambda>a b. \<not> lt (key a) (key b)) (insort_desc lt key x ys)"
  using ys s
proof (induction ys)
  case Nil
  then show ?case by simp
next
  case (Cons y ys)
  from Cons.prems have yK: "key y \<in> K" and ysK: "key ` set ys \<subseteq> K"
    and sy: "\<forall>z\<in>set ys. \<not> lt (key y) (key z)"
    and ss: "sorted_wrt (\<lambda>a b. \<not> lt (key a) (key b)) ys" by auto
  show ?case
  proof (cases "lt (key y) (key x)")
    case True
    have irr: "\<not> lt (key y) (key y)" using K yK by (simp add: strict_linear_on_def)
    have "\<not> lt (key x) (key y)"
    proof
      assume "lt (key x) (key y)"
      with True K x yK have "lt (key y) (key y)" unfolding strict_linear_on_def by blast
      with irr show False ..
    qed
    moreover have "\<forall>z\<in>set ys. \<not> lt (key x) (key z)"
    proof
      fix z assume z: "z \<in> set ys"
      then have zK: "key z \<in> K" using ysK by auto
      show "\<not> lt (key x) (key z)"
      proof
        assume "lt (key x) (key z)"
        with True K x yK zK have "lt (key y) (key z)" unfolding strict_linear_on_def by blast
        with sy z show False by blast
      qed
    qed
    ultimately show ?thesis using True Cons.prems(2) by simp
  next
    case False
    then show ?thesis using Cons.IH[OF ysK ss] sy by simp
  qed
qed

lemma insort_desc_filter:
  assumes K: "strict_linear_on K lt" and x: "key x \<in> K" and ys: "key ` set ys \<subseteq> K"
    and s: "sorted_wrt (\<lambda>a b. \<not> lt (key a) (key b)) ys"
  shows "filter (\<lambda>y. key y = k) (insort_desc lt key x ys)
       = filter (\<lambda>y. key y = k) ys @ (if key x = k then [x] else [])"
  using ys s
proof (induction ys)
  case Nil
  then show ?case by simp
next
  case (Cons y ys)
  from Cons.prems have yK: "key y \<in> K" and ysK: "key ` set ys \<subseteq> K"
    and sy: "\<forall>z\<in>set ys. \<not> lt (key y) (key z)"
    and ss: "sorted_wrt (\<lambda>a b. \<not> lt (key a) (key b)) ys" by auto
  show ?case
  proof (cases "lt (key y) (key x)")
    case True
    have irr: "\<not> lt (key x) (key x)" using K x by (simp add: strict_linear_on_def)
    have ny: "key y \<noteq> key x" using True irr by auto
    have nz: "\<forall>z\<in>set ys. key z \<noteq> key x" using True sy by auto
    then have "filter (\<lambda>y. key y = key x) ys = []" by (simp add: filter_empty_conv)
    then show ?thesis using True ny by auto
  next
    case False
    then show ?thesis using Cons.IH[OF ysK ss] by simp
  qed
qed

lemma foldl_insort_desc:
  assumes K: "strict_linear_on K lt"
  shows "key ` set acc \<subseteq> K \<Longrightarrow> key ` set xs \<subseteq> K
     \<Longrightarrow> sorted_wrt (\<lambda>a b. \<not> lt (key a) (key b)) acc
     \<Longrightarrow> sorted_wrt (\<lambda>a b. \<not> lt (key a) (key b)) (foldl (\<lambda>acc x. insort_desc lt key x acc) acc xs)
       \<and> (\<forall>k. filter (\<lambda>y. key y = k) (foldl (\<lambda>acc x. insort_desc lt key x acc) acc xs)
              = filter (\<lambda>y. key y = k) acc @ filter (\<lambda>y. key y = k) xs)
       \<and> length (foldl (\<lambda>acc x. insort_desc lt key x acc) acc xs) = length acc + length xs"
proof (induction xs arbitrary: acc)
  case Nil
  then show ?case by simp
next
  case (Cons x xs)
  from Cons.prems have xK: "key x \<in> K" and xsK: "key ` set xs \<subseteq> K" by auto
  have a: "key ` set (insort_desc lt key x acc) \<subseteq> K" using xK Cons.prems(1) by auto
  have b: "sorted_wrt (\<lambda>a b. \<not> lt (key a) (key b)) (insort_desc lt key x acc)"
    by (rule insort_desc_sorted[OF K xK Cons.prems(1) Cons.prems(3)])
  have f: "\<And>k. filter (\<lambda>y. key y = k) (insort_desc lt key x acc)
       = filter (\<lambda>y. key y = k) acc @ (if key x = k then [x] else [])"
    by (rule insort_desc_filter[OF K xK Cons.prems(1) Cons.prems(3)])
  from Cons.IH[OF a xsK b] show ?case by (simp add: f)
qed

lemma sorted_reverse_props:
  assumes "strict_linear_on K lt" "key ` set xs \<subseteq> K"
  shows "sorted_wrt (\<lambda>a b. \<not> lt (key a) (key b)) (sorted_reverse lt key xs)"
    and "filter (\<lambda>y. key y = k) (sorted_reverse lt key xs) = filter (\<lambda>y. key y = k) xs"
    and "length (sorted_reverse lt key xs) = length xs"
  using foldl_insort_desc[OF assms(1), of key "[]" xs] assms(2)
  by (simp_all add: sorted_reverse_def)

lemma int_strict_linear: "strict_linear_on UNIV ((<) :: int \<Rightarrow> int \<Rightarrow> bool)"
  by (auto simp: strict_linear_on_def)

lemma flt_strict_linear: "strict_linear_on {x. x \<noteq> NaN} flt"
proof -
  have 1: "\<not> flt a a" for a by (cases a) auto
  have 2: "flt a b \<Longrightarrow> flt b c \<Longrightarrow> flt a c" for a b c
    by (cases a; cases b; cases c) auto
  have 3: "a \<noteq> NaN \<Longrightarrow> b \<noteq> NaN \<Longrightarrow> flt a b \<or> a = b \<or> flt b a" for a b
    by (cases a; cases b) auto
  show ?thesis unfolding strict_linear_on_def using 1 2 3 by blast
qed

text \<open>
  Claim C6. The selection keeps at most three clusters. They are the first three of the
  list \<open>S\<close> that holds the grouped clusters in descending order of the ranking value
  (impacted devices for the Firebase lists, the impact value for the Play-console ANRs)
  with the clusters of equal ranking value in the order of the grouping, which is the
  order in which they were first seen. For the Play-console list the impact values
  must be numbers (no NaN), since \<^verbatim>\<open><\<close> orders nothing else.
\<close>

theorem top_three_sorted_stable:
  "length (top_issues g) \<le> 3
   \<and> (\<exists>S. top_issues g = take 3 S
          \<and> sorted_wrt (\<lambda>a b. impactedDevicesCount b \<le> impactedDevicesCount a) S
          \<and> (\<forall>n. filter (\<lambda>e. impactedDevicesCount e = n) S
                  = filter (\<lambda>e. impactedDevicesCount e = n) (map snd g)))
   \<and> length (top_anrs ga) \<le> 3
   \<and> ((\<forall>x\<in>set ga. group_impact (snd x) \<noteq> NaN) \<longrightarrow>
        (\<exists>S. top_anrs ga = take 3 S
          \<and> sorted_wrt (\<lambda>a b. \<not> flt (group_impact (snd a)) (group_impact (snd b))) S
          \<and> (\<forall>v. filter (\<lambda>e. group_impact (snd e) = v) S
                  = filter (\<lambda>e. group_impact (snd e) = v) ga)))"
proof -
  let ?S = "sorted_reverse (<) impactedDevicesCount (map snd g)"
  have s1: "sorted_wrt (\<lambda>a b. \<not> impactedDevicesCount a < impactedDevicesCount b) ?S"
    by (rule sorted_reverse_props(1)[OF int_strict_linear]) simp
  then have s1': "sorted_wrt (\<lambda>a b. impactedDevicesCount b \<le> impactedDevicesCount a) ?S"
    by (simp only: not_less)
  have f1: "\<forall>n. filter (\<lambda>e. impactedDevicesCount e = n) ?S
                  = filter (\<lambda>e. impactedDevicesCount e = n) (map snd g)"
    using sorted_reverse_props(2)[OF int_strict_linear, of impactedDevicesCount "map snd g"] by simp
  have A: "\<exists>S. top_issues g = take 3 S
          \<and> sorted_wrt (\<lambda>a b. impactedDevicesCount b \<le> impactedDevicesCount a) S
          \<and> (\<forall>n. filter (\<lambda>e. impactedDevicesCount e = n) S
                  = filter (\<lambda>e. impactedDevicesCount e = n) (map snd g))"
    using s1' f1 unfolding top_issues_def by blast
  have B: "\<exists>S. top_anrs ga = take 3 S
          \<and> sorted_wrt (\<lambda>a b. \<not> flt (group_impact (snd a)) (group_impact (snd b))) S
          \<and> (\<forall>v. filter (\<lambda>e. group_impact (snd e) = v) S
                  = filter (\<lambda>e. group_impact (snd e) = v) ga)"
    if nn: "\<forall>x\<in>set ga. group_impact (snd x) \<noteq> NaN"
  proof -
    let ?k = "\<lambda>x :: json \<times> anr_group. group_impact (snd x)"
    have sub: "?k ` set ga \<subseteq> {x. x \<noteq> NaN}" using nn by auto
    from sorted_reverse_props(1)[OF flt_strict_linear sub]
      sorted_reverse_props(2)[OF flt_strict_linear sub]
    show ?thesis unfolding top_anrs_def by blast
  qed
  have "length (top_issues g) \<le> 3" "length (top_anrs ga) \<le> 3"
    by (simp_all add: top_issues_def top_anrs_def)
  with A B show ?thesis by blast
qed

theorem top_three_sorted_stable_witness:
  "map (\<lambda>x. group_impact (snd x)) two_clusters = [Fin (3 / 2), Fin (5 / 2)]
   \<and> (\<exists>S. top_anrs two_clusters = take 3 S
          \<and> sorted_wrt (\<lambda>a b. \<not> flt (group_impact (snd a)) (group_impact (snd b))) S
          \<and> (\<forall>v. filter (\<lambda>e. group_impact (snd e) = v) S
                  = filter (\<lambda>e. group_impact (snd e) = v) two_clusters))"
proof -
  have n: "\<forall>x\<in>set two_clusters. group_impact (snd x) \<noteq> NaN"
    by (simp add: two_clusters_def)
  have m: "map (\<lambda>x. group_impact (snd x)) two_clusters = [Fin (3 / 2), Fin (5 / 2)]"
    by (simp add: two_clusters_def)
  from top_three_sorted_stable[of "[]" two_clusters] n m show ?thesis by blast
qed

section \<open>Apps without iOS\<close>

lemma handle_p90_outside: "outside_ios i s \<Longrightarrow> outside_ios i (handle_p90 L today r s)"
  by (simp add: handle_p90_def outside_ios_def upd_android_def split: option.splits)

lemma handle_dominant_release_outside:
  "outside_ios i s \<Longrightarrow> outside_ios i (handle_dominant_release L r s)"
  by (auto simp: handle_dominant_release_def outside_ios_def upd_android_def split: option.splits)

lemma handle_play_console_outside:
  "outside_ios i s \<Longrightarrow> outside_ios i (handle_play_console L pc r s)"
  by (simp add: handle_play_console_def outside_ios_def upd_android_def split: option.splits)

lemma handle_android_metrics_outside:
  "outside_ios i s \<Longrightarrow> outside_ios i (handle_android_metrics L days today r s)"
  by (simp add: handle_android_metrics_def outside_ios_def upd_android_def Let_def
      split: option.splits prod.splits)

lemma handle_anr_metrics_outside:
  "outside_ios i s \<Longrightarrow> outside_ios i (handle_anr_metrics L days today r s)"
  by (simp add: handle_anr_metrics_def outside_ios_def split: option.splits)

lemma add_issue_outside:
  "\<not> starts_with_ios ph \<Longrightarrow> outside_ios i s \<Longrightarrow> outside_ios i (add_issue ph x s)"
  by (auto simp: add_issue_def outside_ios_def upd_android_def)

lemma store_issues_outside:
  "store_issues ph n k gs s = (s', ok) \<Longrightarrow> \<not> starts_with_ios ph \<Longrightarrow> outside_ios i s
     \<Longrightarrow> outside_ios i s'"
  by (induction ph n k gs s rule: store_issues.induct)
     (auto simp: add_issue_outside split: option.splits)

lemma set_issue_flag_outside: "outside_ios i s \<Longrightarrow> outside_ios i (set_issue_flag ph s)"
  by (simp add: set_issue_flag_def outside_ios_def)

lemma handle_top_issues_outside:
  assumes "outside_ios i s"
  shows "outside_ios i (handle_top_issues L r s)"
proof (cases "issues_guard s")
  case (Process n)
  show ?thesis
  proof (cases "grouped_of_response L (current_phase s) r")
    case None
    then show ?thesis using Process assms by (simp add: handle_top_issues_def)
  next
    case (Some g)
    obtain s' ok where st: "store_issues (current_phase s) n 1 (top_issues g) s = (s', ok)"
      by (cases "store_issues (current_phase s) n 1 (top_issues g) s")
    from assms have "\<not> starts_with_ios (current_phase s)" by (simp add: outside_ios_def)
    from store_issues_outside[OF st this assms] show ?thesis
      using Process Some st by (cases ok) (simp_all add: handle_top_issues_def set_issue_flag_outside)
  qed
next
  case Pending
  then show ?thesis using assms by (simp add: handle_top_issues_def outside_ios_def)
next
  case Skip
  then show ?thesis using assms by (simp add: handle_top_issues_def)
qed

lemma handle_reports_outside:
  assumes "outside_ios i s"
  shows "outside_ios i (handle_reports L days today r s)"
proof -
  from assms have "current_phase s \<noteq> Ios_metrics" "current_phase s \<noteq> Ios_crashes"
    "current_phase s \<noteq> Ios_non_fatals" by (auto simp: outside_ios_def)
  then show ?thesis using assms
    by (simp add: handle_reports_def handle_android_metrics_outside handle_anr_metrics_outside
        handle_top_issues_outside)
qed

lemma handle_response_outside:
  "outside_ios i s \<Longrightarrow> outside_ios i (handle_response L days pc today r s)"
  by (simp add: handle_response_def handle_reports_outside handle_play_console_outside
      handle_dominant_release_outside handle_p90_outside)

lemma deliver_invariant:
  assumes "\<And>t r s. P s \<Longrightarrow> P (H t r s)"
  shows "P s \<Longrightarrow> P (deliver H evs s)"
  unfolding deliver_def by (induction evs arbitrary: s) (simp_all add: assms)

lemma sleep_invariant:
  assumes "\<And>t r s. P s \<Longrightarrow> P (H t r s)"
  shows "P (fst c) \<Longrightarrow> P (fst (sleep H E c))"
  by (simp add: sleep_def deliver_invariant[of P H, OF assms])

lemma wait_until_invariant:
  assumes H: "\<And>t r s. P s \<Longrightarrow> P (H t r s)"
    and w: "wait_until H E flag c = Some c'"
  shows "P (fst c) \<Longrightarrow> P (fst c')"
proof -
  have "H = H \<longrightarrow> P (fst c) \<longrightarrow> P (fst c')"
  proof (rule wait_until.raw_induct[where P = "\<lambda>H' E' flag' c0 c1. H' = H \<longrightarrow> P (fst c0) \<longrightarrow> P (fst c1)", OF _ w])
    fix wu H' E' flag' c0 c1
    assume ih: "\<And>A B C D y. wu A B C D = Some y \<Longrightarrow> A = H \<longrightarrow> P (fst D) \<longrightarrow> P (fst y)"
      and eq: "(if flag' (fst c0) then Some c0 else wu H' E' flag' (sleep H' E' c0)) = Some c1"
    show "H' = H \<longrightarrow> P (fst c0) \<longrightarrow> P (fst c1)"
    proof (cases "flag' (fst c0)")
      case True
      with eq show ?thesis by simp
    next
      case False
      with eq have "wu H' E' flag' (sleep H' E' c0) = Some c1" by simp
      from ih[OF this] show ?thesis
        using sleep_invariant[of P H, OF H] by blast
    qed
  qed
  then show "P (fst c) \<Longrightarrow> P (fst c')" by simp
qed

lemma wait_loop_invariant:
  "(\<And>t r s. P s \<Longrightarrow> P (H t r s)) \<Longrightarrow> wait_loop H E flag n c e = (c', e') \<Longrightarrow> P (fst c)
     \<Longrightarrow> P (fst c')"
proof (induction H E flag n c e rule: wait_loop.induct)
  case (1 H E flag n c e)
  show ?case
  proof (cases "\<not> flag (fst c) \<and> e < n")
    case True
    with "1.prems"(2) have rec: "wait_loop H E flag n (sleep H E c) (e + 1) = (c', e')"
      by (simp add: wait_loop.simps[of H E flag n c e])
    have "P (fst (sleep H E c))"
      using "1.prems"(1,3) by (rule sleep_invariant[of P H])
    from "1.IH"[OF True "1.prems"(1) rec this] show ?thesis .
  next
    case False
    with "1.prems"(2) have "c' = c" by (simp add: wait_loop.simps[of H E flag n c e])
    with "1.prems"(3) show ?thesis by simp
  qed
qed

lemma run_step_outside:
  assumes H: "\<And>t r s. outside_ios i s \<Longrightarrow> outside_ios i (H t r s)"
    and st: "android_step st" and r: "run_step H E st c = Cont c'" and c: "outside_ios i (fst c)"
  shows "outside_ios i (fst c')"
proof (cases st)
  case (Goto u)
  with r have "c' = sleep H E c" by (simp split: if_splits)
  then show ?thesis using sleep_invariant[of "outside_ios i" H, OF H c] by simp
next
  case Reload
  with r have "c' = sleep H E c" by (simp split: if_splits)
  then show ?thesis using sleep_invariant[of "outside_ios i" H, OF H c] by simp
next
  case Evaluate
  with r have "c' = sleep H E c" by (simp split: if_splits)
  then show ?thesis using sleep_invariant[of "outside_ios i" H, OF H c] by simp
next
  case Sleep
  with r have "c' = sleep H E c" by simp
  then show ?thesis using sleep_invariant[of "outside_ios i" H, OF H c] by simp
next
  case (Phase p)
  with r st c show ?thesis by (auto simp: outside_ios_def)
next
  case (Wait flag)
  with r have "wait_until H E flag c = Some c'" by (simp split: option.splits)
  from wait_until_invariant[of "outside_ios i" H, OF H this c] show ?thesis .
next
  case (Wait_bounded flag force)
  obtain c1 e1 where w: "wait_loop H E flag 120 c 0 = (c1, e1)"
    by (cases "wait_loop H E flag 120 c 0")
  have c1: "outside_ios i (fst c1)"
    by (rule wait_loop_invariant[of "outside_ios i" H, OF H w c])
  from st Wait_bounded have f: "\<And>s. current_phase (force s) = current_phase s \<and> data (force s) = data s"
    by simp
  then have "outside_ios i (force (fst c1))" using c1 by (simp add: outside_ios_def)
  with c1 r Wait_bounded w show ?thesis by (auto simp: bounded_wait_def split: if_splits)
qed

lemma run_steps_outside:
  assumes H: "\<And>t r s. outside_ios i s \<Longrightarrow> outside_ios i (H t r s)"
  shows "\<forall>st\<in>set sts. android_step st \<Longrightarrow> run_steps H E sts c = Cont c' \<Longrightarrow> outside_ios i (fst c)
     \<Longrightarrow> outside_ios i (fst c')"
proof (induction sts arbitrary: c)
  case Nil
  then show ?case by simp
next
  case (Cons st sts)
  from Cons.prems(2) obtain c1 where 1: "run_step H E st c = Cont c1"
    and 2: "run_steps H E sts c1 = Cont c'"
    by (cases "run_step H E st c") auto
  from Cons.prems(1) have a: "android_step st" and b: "\<forall>st\<in>set sts. android_step st" by auto
  from run_step_outside[of i H, OF H a 1 Cons.prems(3)] have "outside_ios i (fst c1)" .
  from Cons.IH[OF b 2 this] show ?case .
qed

lemma all_steps_android:
  assumes "has_ios cfg \<noteq> Some True"
  shows "\<forall>st\<in>set (all_steps cfg u). android_step st"
  using assms
  by (auto simp: all_steps_def android_steps_def play_console_steps_def
      android_dominant_steps_def p90_steps_def split: option.splits)

text \<open>
  Claim C10. For an app whose configuration does not set \<^verbatim>\<open>has_ios\<close> to true, a run
  that returns a result returns it with every iOS field as it was initialised: no
  crash-free rates, no install totals, no top crashes, no top non-fatals, no dominant
  release.
\<close>

theorem no_ios_fields_without_ios:
  assumes "has_ios cfg \<noteq> Some True"
    and "collect_app_data L days report_days key cfg E = Some (Some d)"
  shows "ios d = \<lparr>ios_crash_free_rates = Map.empty, ios_total_installs = Map.empty,
                  ios_top_crashes = [], ios_top_non_fatals = [], ios_dominant_release = None\<rparr>"
proof -
  let ?i = "\<lparr>ios_crash_free_rates = Map.empty, ios_total_installs = Map.empty,
             ios_top_crashes = [], ios_top_non_fatals = [], ios_dominant_release = None\<rparr>"
  let ?H = "handle_response L days (pc_app_id cfg)"
  from assms(2) obtain c where run: "run_steps ?H E (all_steps cfg (build_urls report_days key cfg))
      (initial_closure key cfg, 0) = Cont c" and d: "d = add_vitals E (data (fst c))"
    by (auto simp: collect_app_data_def split: outcome.splits)
  have init: "outside_ios ?i (fst (initial_closure key cfg, 0 :: nat))"
    by (simp add: outside_ios_def initial_closure_def initial_data_def)
  have "outside_ios ?i (fst c)"
    by (rule run_steps_outside[of ?i ?H, OF handle_response_outside all_steps_android[OF assms(1)] run init])
  then have "ios (data (fst c)) = ?i" by (simp add: outside_ios_def)
  then show ?thesis by (simp add: d add_vitals_def split: option.splits)
qed

lemma sleep_quiet: "arrivals E (snd c) = [] \<Longrightarrow> sleep H E c = (fst c, Suc (snd c))"
  by (simp add: sleep_def deliver_def)

lemma wait_loop_quiet:
  "\<forall>k. arrivals E (snd c + k) = [] \<Longrightarrow> \<not> flag (fst c) \<Longrightarrow> e \<le> n
     \<Longrightarrow> wait_loop H E flag n c e = ((fst c, snd c + (n - e)), n)"
proof (induction H E flag n c e rule: wait_loop.induct)
  case (1 H E flag n c e)
  show ?case
  proof (cases "e < n")
    case True
    from "1.prems"(1) have a0: "arrivals E (snd c) = []" by (metis add.right_neutral)
    then have sl: "sleep H E c = (fst c, Suc (snd c))" by (rule sleep_quiet)
    have q: "\<forall>k. arrivals E (snd (sleep H E c) + k) = []"
    proof
      fix k
      from "1.prems"(1) have "arrivals E (snd c + Suc k) = []" by blast
      then show "arrivals E (snd (sleep H E c) + k) = []" by (simp add: sl)
    qed
    have nf: "\<not> flag (fst (sleep H E c))" using "1.prems"(2) by (simp add: sl)
    have le: "e + 1 \<le> n" using True by simp
    have c: "\<not> flag (fst c) \<and> e < n" using True "1.prems"(2) by simp
    from "1.IH"[OF c q nf le]
    have "wait_loop H E flag n (sleep H E c) (e + 1) = ((fst c, Suc (snd c) + (n - (e + 1))), n)"
      by (simp add: sl)
    moreover have "Suc (snd c) + (n - (e + 1)) = snd c + (n - e)" using True by simp
    ultimately show ?thesis using c by (simp add: wait_loop.simps[of H E flag n c e])
  next
    case False
    with "1.prems"(3) have "e = n" by simp
    then show ?thesis by (subst wait_loop.simps) simp
  qed
qed

lemma bounded_wait_quiet:
  assumes "\<forall>k. arrivals E (snd c + k) = []" "\<not> flag (fst c)"
  shows "bounded_wait H E flag force c = (force (fst c), snd c + 120)"
proof -
  have "wait_loop H E flag 120 c 0 = ((fst c, snd c + (120 - 0)), 120)"
    by (rule wait_loop_quiet) (use assms in simp_all)
  then show ?thesis using assms(2) by (simp add: bounded_wait_def)
qed

lemma wait_until_done: "flag (fst c) \<Longrightarrow> wait_until H E flag c = Some c"
  by (subst wait_until.simps) simp

lemma contains_self: "contains s s"
  by (cases s) simp_all

lemma anr_report_rows:
  "gated_rows demo_lib 7 738955 anr_report
     = Some (Some [metrics_row ''ANR'' (99 / 100) ''2024-03-04T00:00:00Z'' ''2024-03-10T00:00:00Z''])"
  by (simp add: gated_rows_def anr_report_def date_range_gate_def metrics_row_def
      is_valid_date_range_def demo_lib_def replace_Z_def)

lemma anr_row_kind:
  "row_is f (metrics_row ''ANR'' q a b) = Some (f = ''ANR'')"
  by (auto simp: row_is_def metrics_row_def)

lemma anr_row_installs: "row_installs demo_lib (metrics_row f q a b) = Some 1000"
  by (simp add: row_installs_def interval0_def metrics_row_def demo_lib_def)

lemma first_report:
  assumes "current_phase s = Metrics" "\<not> metrics_captured s"
  shows "metrics_captured (handle_response demo_lib 7 pc 738955 anr_report s)
       \<and> current_phase (handle_response demo_lib 7 pc 738955 anr_report s) = Metrics"
proof -
  have u: "url anr_report = ''metrics:getMetricsReport''" by (simp add: anr_report_def)
  have f: "handle_play_console demo_lib pc anr_report
             (handle_dominant_release demo_lib anr_report (handle_p90 demo_lib 738955 anr_report s)) = s"
    using assms by (simp add: handle_p90_def handle_dominant_release_def handle_play_console_def)
  show ?thesis
    using assms
    by (simp add: handle_response_def f handle_reports_def u contains_self
        handle_android_metrics_def anr_report_rows android_metric_row_def anr_row_kind
        upd_android_def)
qed

lemma steps_android_only:
  "all_steps android_only (build_urls 7 k android_only)
     = android_steps (build_urls 7 k android_only)
       @ play_console_steps (build_urls 7 k android_only)
       @ android_dominant_steps (android_dom_url 7 android_only (android_app_id android_only))
       @ p90_steps (p90_url 7 android_only)"
  by (simp add: all_steps_def build_urls_def android_only_def)

lemma no_issues_grouped: "grouped_of_response L ph no_issues = Some []"
  by (simp add: grouped_of_response_def no_issues_def)

lemma android_part:
  "\<exists>s. run_steps (handle_response demo_lib 7 pc) android_run (android_steps u)
          (initial_closure ''partner'' android_only, 0) = Cont (s, 7)
       \<and> \<not> play_console_anrs_captured s \<and> \<not> android_dominant_release_captured s
       \<and> \<not> android_p90_launch_captured s"
  by (simp add: android_steps_def android_run_def sleep_def deliver_def wait_until_done
      initial_closure_def initial_data_def
      handle_response_def handle_p90_def handle_dominant_release_def handle_play_console_def
      handle_reports_def anr_report_def[THEN arg_cong[of _ _ url]] no_issues_def[THEN arg_cong[of _ _ url]]
      contains_self
      handle_android_metrics_def anr_report_rows android_metric_row_def anr_row_kind anr_row_installs
      handle_anr_metrics_def handle_top_issues_def issues_guard_def no_issues_grouped
      top_issues_def sorted_reverse_def set_issue_flag_def upd_android_def)

lemma run_steps_append:
  "run_steps H E (a @ b) c = (case run_steps H E a c of Cont c' \<Rightarrow> run_steps H E b c' | out \<Rightarrow> out)"
  by (induction a arbitrary: c) (auto split: outcome.splits)

lemma quiet_phase:
  assumes q: "\<forall>k. arrivals E (n + k) = []" and r: "\<forall>n. \<not> raises E n" and f: "\<not> flag (s\<lparr>current_phase := p\<rparr>)"
  shows "run_steps H E [Phase p, Sleep, Goto u, Wait_bounded flag force] (s, n)
       = Cont (force (s\<lparr>current_phase := p\<rparr>), n + 122)"
proof -
  from q have a0: "arrivals E n = []" by (metis add.right_neutral)
  from q have a1: "arrivals E (Suc n) = []" by (metis add_Suc_right add.right_neutral)
  have q2: "\<forall>k. arrivals E (snd (s\<lparr>current_phase := p\<rparr>, Suc (Suc n)) + k) = []"
  proof
    fix k
    from q have "arrivals E (n + (k + 2)) = []" by blast
    then show "arrivals E (snd (s\<lparr>current_phase := p\<rparr>, Suc (Suc n)) + k) = []" by (simp add: add.commute)
  qed
  have f2: "\<not> flag (fst (s\<lparr>current_phase := p\<rparr>, Suc (Suc n)))" using f by simp
  have bw: "bounded_wait H E flag force (s\<lparr>current_phase := p\<rparr>, Suc (Suc n))
      = (force (s\<lparr>current_phase := p\<rparr>), n + 122)"
    using bounded_wait_quiet[of E "(s\<lparr>current_phase := p\<rparr>, Suc (Suc n))" flag H force] q2 f2 by simp
  show ?thesis using r by (simp add: sleep_quiet a0 a1 bw)
qed

lemma android_run_quiet: "\<forall>k. arrivals android_run (7 + m + k) = []"
  by (simp add: android_run_def)

lemma android_run_calm: "\<forall>n. \<not> raises android_run n"
  by (simp add: android_run_def)

lemma android_run_returns:
  "\<exists>c. run_steps (handle_response demo_lib 7 pc) android_run
          (all_steps android_only (build_urls 7 k android_only))
          (initial_closure ''partner'' android_only, 0) = Cont c"
proof -
  let ?H = "handle_response demo_lib 7 pc"
  let ?u = "build_urls 7 k android_only"
  from android_part[of pc ?u] obtain s where
    a: "run_steps ?H android_run (android_steps ?u) (initial_closure ''partner'' android_only, 0) = Cont (s, 7)"
    and f: "\<not> play_console_anrs_captured s" "\<not> android_dominant_release_captured s"
      "\<not> android_p90_launch_captured s" by blast
  let ?s1 = "(s\<lparr>current_phase := Up_anrs\<rparr>)\<lparr>play_console_anrs_captured := True\<rparr>"
  have b: "run_steps ?H android_run (play_console_steps ?u) (s, 7) = Cont (?s1, 7 + 122)"
    unfolding play_console_steps_def
    by (rule quiet_phase) (use f android_run_quiet[of 0] android_run_calm in simp_all)
  let ?s2 = "(?s1\<lparr>current_phase := Android_dominant_release\<rparr>)\<lparr>android_dominant_release_captured := True\<rparr>"
  have c: "run_steps ?H android_run (android_dominant_steps du) (?s1, 7 + 122) = Cont (?s2, 7 + 122 + 122)" for du
    unfolding android_dominant_steps_def
    by (rule quiet_phase) (use f android_run_quiet[of 122] android_run_calm in simp_all)
  let ?s3 = "(?s2\<lparr>current_phase := Android_p90_launch\<rparr>)\<lparr>android_p90_launch_captured := True\<rparr>"
  have d: "run_steps ?H android_run (p90_steps lu) (?s2, 7 + 122 + 122) = Cont (?s3, 7 + 122 + 122 + 122)" for lu
    unfolding p90_steps_def
    by (rule quiet_phase) (use f android_run_quiet[of 244] android_run_calm in simp_all)
  show ?thesis
    by (simp only: steps_android_only run_steps_append a b c d outcome.case) blast
qed

theorem no_ios_fields_without_ios_witness:
  "has_ios android_only \<noteq> Some True
   \<and> (\<exists>d. collect_app_data demo_lib 7 7 ''partner'' android_only android_run = Some (Some d)
          \<and> ios d = \<lparr>ios_crash_free_rates = Map.empty, ios_total_installs = Map.empty,
                      ios_top_crashes = [], ios_top_non_fatals = [], ios_dominant_release = None\<rparr>)"
proof -
  have h: "has_ios android_only \<noteq> Some True" by (simp add: android_only_def)
  from android_run_returns[of "pc_app_id android_only" "''partner''"] obtain c where
    "run_steps (handle_response demo_lib 7 (pc_app_id android_only)) android_run
          (all_steps android_only (build_urls 7 ''partner'' android_only))
          (initial_closure ''partner'' android_only, 0) = Cont c" by blast
  then have r: "collect_app_data demo_lib 7 7 ''partner'' android_only android_run
      = Some (Some (add_vitals android_run (data (fst c))))"
    by (simp add: collect_app_data_def)
  from no_ios_fields_without_ios[OF h r] h r show ?thesis by blast
qed

section \<open>Grouping\<close>

lemma first_seen_snoc:
  "first_seen (xs @ [x]) = (if x \<in> set xs then first_seen xs else first_seen xs @ [x])"
  by (simp add: first_seen_def)

lemma set_first_seen [simp]: "set (first_seen xs) = set xs"
  by (simp add: first_seen_def)

lemma distinct_first_seen [simp]: "distinct (first_seen xs)"
  by (simp add: first_seen_def)

lemma upsert_fst:
  assumes "\<forall>kv\<in>set d. eq (fst kv) k = (fst kv = k)"
  shows "map fst (dict_upsert eq k f v d) = (if k \<in> fst ` set d then map fst d else map fst d @ [k])"
  using assms by (induction d) auto

lemma upsert_map_of:
  assumes "\<forall>kv\<in>set d. eq (fst kv) k = (fst kv = k)"
  shows "map_of (dict_upsert eq k f v d)
       = (map_of d)(k \<mapsto> (case map_of d k of None \<Rightarrow> v | Some w \<Rightarrow> f w))"
  using assms by (induction d) (auto simp: fun_eq_iff)

lemma upsert_fresh:
  "\<forall>kv\<in>set d. \<not> eq (fst kv) k \<Longrightarrow> dict_upsert eq k f v d = d @ [(k, v)]"
  by (induction d) auto

lemma foldl_upsert:
  assumes eq: "\<forall>a\<in>set xs. \<forall>b\<in>set xs. eq (key a) (key b) = (key a = key b)"
  shows "map fst (foldl (\<lambda>d x. dict_upsert eq (key x) (merge x) (new x) d) [] xs)
           = first_seen (map key xs)
       \<and> (\<forall>k. map_of (foldl (\<lambda>d x. dict_upsert eq (key x) (merge x) (new x) d) [] xs) k
              = (case filter (\<lambda>x. key x = k) xs of
                   [] \<Rightarrow> None
                 | x # rest \<Rightarrow> Some (foldl (\<lambda>v y. merge y v) (new x) rest)))"
  using eq
proof (induction xs rule: rev_induct)
  case Nil
  then show ?case by (simp add: first_seen_def)
next
  case (snoc x xs)
  let ?g = "foldl (\<lambda>d x. dict_upsert eq (key x) (merge x) (new x) d) [] xs"
  from snoc.prems have eq': "\<forall>a\<in>set xs. \<forall>b\<in>set xs. eq (key a) (key b) = (key a = key b)" by simp
  from snoc.IH[OF eq'] have keys: "map fst ?g = first_seen (map key xs)"
    and vals: "\<And>k. map_of ?g k = (case filter (\<lambda>x. key x = k) xs of
                   [] \<Rightarrow> None | x # rest \<Rightarrow> Some (foldl (\<lambda>v y. merge y v) (new x) rest))"
    by auto
  have fs: "fst ` set ?g = key ` set xs"
  proof -
    have "fst ` set ?g = set (map fst ?g)" by simp
    also have "\<dots> = key ` set xs" by (simp only: keys set_first_seen set_map)
    finally show ?thesis .
  qed
  have c: "\<forall>kv\<in>set ?g. eq (fst kv) (key x) = (fst kv = key x)"
  proof
    fix kv assume "kv \<in> set ?g"
    then have "fst kv \<in> key ` set xs" using fs by blast
    then obtain a where "a \<in> set xs" "fst kv = key a" by blast
    with snoc.prems show "eq (fst kv) (key x) = (fst kv = key x)" by simp
  qed
  note uf = upsert_fst[of ?g eq "key x" "merge x" "new x", OF c]
  note um = upsert_map_of[of ?g eq "key x" "merge x" "new x", OF c]
  have 1: "map fst (dict_upsert eq (key x) (merge x) (new x) ?g) = first_seen (map key (xs @ [x]))"
    by (simp add: uf fs keys first_seen_snoc)
  have 2: "map_of (dict_upsert eq (key x) (merge x) (new x) ?g) k
       = (case filter (\<lambda>y. key y = k) (xs @ [x]) of
            [] \<Rightarrow> None | y # rest \<Rightarrow> Some (foldl (\<lambda>v y. merge y v) (new y) rest))" for k
  proof (cases "key x = k")
    case True
    show ?thesis
    proof (cases "filter (\<lambda>y. key y = k) xs")
      case Nil
      show ?thesis unfolding um using True vals[of k] Nil by simp
    next
      case (Cons y rest)
      show ?thesis unfolding um using True vals[of k] Cons by simp
    qed
  next
    case False
    show ?thesis unfolding um using False vals[of k] by simp
  qed
  from 1 2 show ?case by simp
qed

lemma foldl_merge_sum:
  fixes m :: "'v \<Rightarrow> int"
  assumes "\<And>y v. m (merge y v) = m v + w y"
  shows "m (foldl (\<lambda>v y. merge y v) v0 rest) = m v0 + sum_list (map w rest)"
  by (induction rest arbitrary: v0) (simp_all add: assms add.assoc)

lemma foldl_merge_keep:
  assumes "\<And>y v. t (merge y v) = t v"
  shows "t (foldl (\<lambda>v y. merge y v) v0 rest) = t v0"
  by (induction rest arbitrary: v0) (simp_all add: assms)

lemma group_issue_android:
  assumes "group_issue L ph g issue = Some g1" "\<not> starts_with_ios ph"
  shows "\<exists>f. issue_fields L issue = Some f \<and> hashable (row_key ph f)
      \<and> g1 = dict_upsert gkey_eq (GKey (row_key ph f)) (merge_row f) (new_row ph f) g"
proof -
  from assms(1) obtain sub tit d e where f: "issue_fields L issue = Some (sub, tit, d, e)"
    by (auto simp: group_issue_def split: option.splits)
  have m: "merge_row (sub, tit, d, e)
      = (\<lambda>g. g\<lparr>impactedDevicesCount := impactedDevicesCount g + d, eventsCount := eventsCount g + e\<rparr>)"
    by (intro ext) (simp add: merge_row_def row_devices_def row_events_def)
  from assms f have "hashable (group_key ph sub tit)"
    and "g1 = dict_upsert gkey_eq (GKey (group_key ph sub tit)) (merge_row (sub, tit, d, e))
               (new_row ph (sub, tit, d, e)) g"
    by (auto simp: group_issue_def m new_row_def split: if_splits)
  with f show ?thesis by (auto simp: row_key_def)
qed

lemma group_issues_foldl:
  "group_issues L ph g rows = Some g' \<Longrightarrow> \<not> starts_with_ios ph \<Longrightarrow>
   \<exists>fs. map (issue_fields L) rows = map Some fs
      \<and> g' = foldl (\<lambda>d f. dict_upsert gkey_eq (GKey (row_key ph f)) (merge_row f) (new_row ph f) d) g fs"
proof (induction rows arbitrary: g)
  case Nil
  then show ?case by simp
next
  case (Cons issue rows)
  from Cons.prems(1) obtain g1 where 1: "group_issue L ph g issue = Some g1"
    and 2: "group_issues L ph g1 rows = Some g'" by (auto split: option.splits)
  from group_issue_android[OF 1 Cons.prems(2)] obtain f where f: "issue_fields L issue = Some f"
    "g1 = dict_upsert gkey_eq (GKey (row_key ph f)) (merge_row f) (new_row ph f) g" by blast
  from Cons.IH[OF 2 Cons.prems(2)] obtain fs where fs: "map (issue_fields L) rows = map Some fs"
    "g' = foldl (\<lambda>d f. dict_upsert gkey_eq (GKey (row_key ph f)) (merge_row f) (new_row ph f) d) g1 fs"
    by blast
  have "map (issue_fields L) (issue # rows) = map Some (f # fs)" using f(1) fs(1) by simp
  moreover have "g' = foldl (\<lambda>d f. dict_upsert gkey_eq (GKey (row_key ph f)) (merge_row f) (new_row ph f) d) g (f # fs)"
    using f(2) fs(2) by simp
  ultimately show ?case by blast
qed

lemma group_issue_ios:
  assumes "group_issue L ph g issue = Some g1" "starts_with_ios ph"
  shows "\<exists>f t. issue_fields L issue = Some f
      \<and> g1 = dict_upsert gkey_eq (IKey t (length g)) (\<lambda>_. ios_entry ph f) (ios_entry ph f) g"
proof -
  from assms(1) obtain sub tit d e where f: "issue_fields L issue = Some (sub, tit, d, e)"
    by (auto simp: group_issue_def split: option.splits)
  with assms show ?thesis by (auto simp: group_issue_def ios_entry_def Let_def)
qed

lemma group_issues_ios:
  "group_issues L ph g rows = Some g' \<Longrightarrow> starts_with_ios ph \<Longrightarrow>
   \<forall>kv\<in>set g. \<exists>t n. fst kv = IKey t n \<and> n < length g \<Longrightarrow>
   \<exists>fs. map (issue_fields L) rows = map Some fs \<and> map snd g' = map snd g @ map (ios_entry ph) fs"
proof (induction rows arbitrary: g)
  case Nil
  then show ?case by simp
next
  case (Cons issue rows)
  from Cons.prems(1) obtain g1 where 1: "group_issue L ph g issue = Some g1"
    and 2: "group_issues L ph g1 rows = Some g'" by (auto split: option.splits)
  from group_issue_ios[OF 1 Cons.prems(2)] obtain f t where f: "issue_fields L issue = Some f"
    "g1 = dict_upsert gkey_eq (IKey t (length g)) (\<lambda>_. ios_entry ph f) (ios_entry ph f) g" by blast
  have fresh: "\<forall>kv\<in>set g. \<not> gkey_eq (fst kv) (IKey t (length g))"
  proof
    fix kv assume "kv \<in> set g"
    with Cons.prems(3) obtain t' n where "fst kv = IKey t' n" "n < length g" by blast
    then show "\<not> gkey_eq (fst kv) (IKey t (length g))" by simp
  qed
  have g1: "g1 = g @ [(IKey t (length g), ios_entry ph f)]"
    unfolding f(2) using fresh by (rule upsert_fresh)
  have inv: "\<forall>kv\<in>set g1. \<exists>t n. fst kv = IKey t n \<and> n < length g1"
  proof
    fix kv assume "kv \<in> set g1"
    then consider "kv \<in> set g" | "kv = (IKey t (length g), ios_entry ph f)" using g1 by auto
    then show "\<exists>t n. fst kv = IKey t n \<and> n < length g1"
    proof cases
      case 1
      with Cons.prems(3) obtain t' n where "fst kv = IKey t' n" "n < length g" by blast
      then show ?thesis using g1 by auto
    next
      case 2
      then show ?thesis using g1 by auto
    qed
  qed
  from Cons.IH[OF 2 Cons.prems(2) inv] obtain fs where fs: "map (issue_fields L) rows = map Some fs"
    "map snd g' = map snd g1 @ map (ios_entry ph) fs" by blast
  have "map (issue_fields L) (issue # rows) = map Some (f # fs)" using f(1) fs(1) by simp
  moreover have "map snd g' = map snd g @ map (ios_entry ph) (f # fs)" using fs(2) g1 by simp
  ultimately show ?case by blast
qed

lemma group_anr_step:
  assumes "group_anr L g anr = Some g1"
  shows "\<exists>a. anr_fields L anr = Some a
      \<and> g1 = dict_upsert key_eq (fst a) (merge_anr a) (new_anr a) g"
proof -
  from assms obtain nm users cnt f where a: "anr_fields L anr = Some (nm, users, cnt, f)"
    by (auto simp: group_anr_def split: option.splits)
  have m: "merge_anr (nm, users, cnt, f)
      = (\<lambda>g. g\<lparr>affected_users := affected_users g + users, event_count := event_count g + cnt,
                 group_impact := fadd (group_impact g) (fmul f (Fin 100))\<rparr>)"
    by (intro ext) (simp add: merge_anr_def)
  from assms a show ?thesis by (auto simp: group_anr_def m new_anr_def split: if_splits)
qed

lemma group_anrs_foldl:
  "group_anrs L g anrs = Some g' \<Longrightarrow>
   \<exists>as. map (anr_fields L) anrs = map Some as
      \<and> g' = foldl (\<lambda>d a. dict_upsert key_eq (fst a) (merge_anr a) (new_anr a) d) g as"
proof (induction anrs arbitrary: g)
  case Nil
  then show ?case by simp
next
  case (Cons anr anrs)
  from Cons.prems obtain g1 where 1: "group_anr L g anr = Some g1"
    and 2: "group_anrs L g1 anrs = Some g'" by (auto split: option.splits)
  from group_anr_step[OF 1] obtain a where a: "anr_fields L anr = Some a"
    "g1 = dict_upsert key_eq (fst a) (merge_anr a) (new_anr a) g" by blast
  from Cons.IH[OF 2] obtain as where as: "map (anr_fields L) anrs = map Some as"
    "g' = foldl (\<lambda>d a. dict_upsert key_eq (fst a) (merge_anr a) (new_anr a) d) g1 as" by blast
  have "map (anr_fields L) (anr # anrs) = map Some (a # as)" using a(1) as(1) by simp
  moreover have "g' = foldl (\<lambda>d a. dict_upsert key_eq (fst a) (merge_anr a) (new_anr a) d) g (a # as)"
    using a(2) as(2) by simp
  ultimately show ?case by blast
qed

lemma first_seen_map_inj:
  assumes "inj f"
  shows "first_seen (map f xs) = map f (first_seen xs)"
proof (induction xs rule: rev_induct)
  case Nil
  then show ?case by (simp add: first_seen_def)
next
  case (snoc x xs)
  have "f x \<in> f ` set xs \<longleftrightarrow> x \<in> set xs" using assms by (auto dest: injD)
  with snoc show ?case by (simp add: first_seen_snoc)
qed

lemma grouped_value:
  assumes keys: "map fst g = first_seen (map key xs)"
    and vals: "\<forall>k. map_of g k = (case filter (\<lambda>x. key x = k) xs of
                   [] \<Rightarrow> None | x # rest \<Rightarrow> Some (foldl (\<lambda>v y. merge y v) (new x) rest))"
    and kv: "kv \<in> set g"
  shows "\<exists>x rest. filter (\<lambda>x. key x = fst kv) xs = x # rest
             \<and> snd kv = foldl (\<lambda>v y. merge y v) (new x) rest"
proof -
  have d: "distinct (map fst g)" by (simp add: keys)
  have "(fst kv, snd kv) \<in> set g" using kv by simp
  then have "map_of g (fst kv) = Some (snd kv)" by (simp only: map_of_eq_Some_iff[OF d])
  with vals show ?thesis by (auto split: list.splits)
qed

lemma issues_grouped:
  assumes g: "g = foldl (\<lambda>d f. dict_upsert gkey_eq (GKey (row_key ph f)) (merge_row f) (new_row ph f) d) [] fs"
    and str: "\<forall>f\<in>set fs. \<exists>s. row_key ph f = JStr s \<and> (ph \<noteq> Anrs \<longrightarrow> s \<noteq> ''Unknown'')"
    and ph: "\<not> starts_with_ios ph"
  shows "map fst g = map GKey (first_seen (map (row_key ph) fs))
       \<and> (\<forall>kv\<in>set g. \<forall>k. fst kv = GKey k \<longrightarrow>
             title (snd kv) = k
           \<and> impactedDevicesCount (snd kv) = sum_list (map row_devices (filter (\<lambda>f. row_key ph f = k) fs))
           \<and> eventsCount (snd kv) = sum_list (map row_events (filter (\<lambda>f. row_key ph f = k) fs)))"
proof -
  let ?key = "\<lambda>f. GKey (row_key ph f)"
  have eq: "\<forall>a\<in>set fs. \<forall>b\<in>set fs. gkey_eq (?key a) (?key b) = (?key a = ?key b)"
  proof (intro ballI)
    fix a b assume "a \<in> set fs" "b \<in> set fs"
    with str obtain s t where "row_key ph a = JStr s" "row_key ph b = JStr t" by blast
    then show "gkey_eq (?key a) (?key b) = (?key a = ?key b)" by (simp add: key_eq_def)
  qed
  from foldl_upsert[of fs gkey_eq ?key merge_row "new_row ph", OF eq]
  have keys: "map fst g = first_seen (map ?key fs)"
    and vals: "\<forall>k. map_of g k = (case filter (\<lambda>x. ?key x = k) fs of
                   [] \<Rightarrow> None | x # rest \<Rightarrow> Some (foldl (\<lambda>v y. merge_row y v) (new_row ph x) rest))"
    unfolding g by blast+
  have "inj GKey" by (simp add: inj_def)
  from first_seen_map_inj[OF this, of "map (row_key ph) fs"]
  have 1: "map fst g = map GKey (first_seen (map (row_key ph) fs))"
    by (simp add: keys comp_def)
  have 2: "title (snd kv) = k
           \<and> impactedDevicesCount (snd kv) = sum_list (map row_devices (filter (\<lambda>f. row_key ph f = k) fs))
           \<and> eventsCount (snd kv) = sum_list (map row_events (filter (\<lambda>f. row_key ph f = k) fs))"
    if kv: "kv \<in> set g" and k: "fst kv = GKey k" for kv k
  proof -
    from grouped_value[of g ?key fs merge_row "new_row ph", OF keys vals kv] k
    obtain x rest where f: "filter (\<lambda>f. row_key ph f = k) fs = x # rest"
      and v: "snd kv = foldl (\<lambda>v y. merge_row y v) (new_row ph x) rest" by auto
    have "x \<in> set (filter (\<lambda>f. row_key ph f = k) fs)" by (simp add: f)
    then have xin: "x \<in> set fs" and xk: "row_key ph x = k" by auto
    from str xin xk obtain s where s: "k = JStr s" "ph \<noteq> Anrs \<longrightarrow> s \<noteq> ''Unknown''" by auto
    obtain sub tit d e where x: "x = (sub, tit, d, e)" by (cases x)
    have t0: "title (new_row ph x) = k"
      using xk s ph by (auto simp: x new_row_def row_key_def group_key_def display_title_def split: if_splits)
    have d0: "impactedDevicesCount (new_row ph x) = row_devices x"
      and e0: "eventsCount (new_row ph x) = row_events x"
      by (simp_all add: x new_row_def row_devices_def row_events_def)
    have "title (snd kv) = title (new_row ph x)"
      unfolding v by (rule foldl_merge_keep) (simp add: merge_row_def)
    moreover have "impactedDevicesCount (snd kv) = impactedDevicesCount (new_row ph x) + sum_list (map row_devices rest)"
      unfolding v by (rule foldl_merge_sum) (simp add: merge_row_def)
    moreover have "eventsCount (snd kv) = eventsCount (new_row ph x) + sum_list (map row_events rest)"
      unfolding v by (rule foldl_merge_sum) (simp add: merge_row_def)
    ultimately show ?thesis by (simp add: t0 d0 e0 f)
  qed
  from 1 2 show ?thesis by blast
qed

lemma anrs_grouped:
  assumes g: "g = foldl (\<lambda>d a. dict_upsert key_eq (fst a) (merge_anr a) (new_anr a) d) [] as"
    and str: "\<forall>a\<in>set as. \<exists>s. fst a = JStr s"
  shows "map fst g = first_seen (map fst as)
       \<and> (\<forall>kv\<in>set g.
             affected_users (snd kv) = sum_list (map anr_users (filter (\<lambda>a. fst a = fst kv) as))
           \<and> event_count (snd kv) = sum_list (map anr_count (filter (\<lambda>a. fst a = fst kv) as)))"
proof -
  have eq: "\<forall>a\<in>set as. \<forall>b\<in>set as. key_eq (fst a) (fst b) = (fst a = fst b)"
  proof (intro ballI)
    fix a b assume "a \<in> set as" "b \<in> set as"
    with str obtain s t where "fst a = JStr s" "fst b = JStr t" by blast
    then show "key_eq (fst a) (fst b) = (fst a = fst b)" by (simp add: key_eq_def)
  qed
  from foldl_upsert[of as key_eq fst merge_anr new_anr, OF eq]
  have keys: "map fst g = first_seen (map fst as)"
    and vals: "\<forall>k. map_of g k = (case filter (\<lambda>x. fst x = k) as of
                   [] \<Rightarrow> None | x # rest \<Rightarrow> Some (foldl (\<lambda>v y. merge_anr y v) (new_anr x) rest))"
    unfolding g by blast+
  have 2: "affected_users (snd kv) = sum_list (map anr_users (filter (\<lambda>a. fst a = fst kv) as))
           \<and> event_count (snd kv) = sum_list (map anr_count (filter (\<lambda>a. fst a = fst kv) as))"
    if kv: "kv \<in> set g" for kv
  proof -
    from grouped_value[of g fst as merge_anr new_anr, OF keys vals kv]
    obtain x rest where f: "filter (\<lambda>a. fst a = fst kv) as = x # rest"
      and v: "snd kv = foldl (\<lambda>v y. merge_anr y v) (new_anr x) rest" by auto
    have "affected_users (snd kv) = affected_users (new_anr x) + sum_list (map anr_users rest)"
      unfolding v by (rule foldl_merge_sum) (simp add: merge_anr_def anr_users_def split: prod.splits)
    moreover have "event_count (snd kv) = event_count (new_anr x) + sum_list (map anr_count rest)"
      unfolding v by (rule foldl_merge_sum) (simp add: merge_anr_def anr_count_def split: prod.splits)
    moreover have "affected_users (new_anr x) = anr_users x" "event_count (new_anr x) = anr_count x"
      by (simp_all add: new_anr_def anr_users_def anr_count_def split: prod.splits)
    ultimately show ?thesis by (simp add: f)
  qed
  from keys 2 show ?thesis by blast
qed

text \<open>
  Claim C3, as amended. The rows of an issue list are read by \<open>issue_fields\<close>. Outside
  the iOS phases they are grouped: by title in the ANR phase, by subtitle in the
  crashes and non-fatals phases. For rows whose key is a string (and, where the key is
  the subtitle, not the default \<open>Unknown\<close> of a missing subtitle) the groups are the
  distinct keys in first-seen order, each named by its key, with the impacted devices
  and the events of its rows summed. In an iOS phase nothing is grouped: every row
  makes an entry of its own, in row order. The Play-console clusters are grouped by
  their name, with the affected users and the events of a name summed.
\<close>

theorem issue_rows_grouped:
  assumes "group_issues L ph [] rows = Some g"
  shows "row_key Anrs (sub, tit, d, e) = tit \<and> row_key Crashes (sub, tit, d, e) = sub
     \<and> row_key Non_fatals (sub, tit, d, e) = sub
     \<and> (\<exists>fs. map (issue_fields L) rows = map Some fs
         \<and> (starts_with_ios ph \<longrightarrow> map snd g = map (ios_entry ph) fs)
         \<and> (\<not> starts_with_ios ph
              \<and> (\<forall>f\<in>set fs. \<exists>s. row_key ph f = JStr s \<and> (ph \<noteq> Anrs \<longrightarrow> s \<noteq> ''Unknown'')) \<longrightarrow>
              map fst g = map GKey (first_seen (map (row_key ph) fs))
              \<and> (\<forall>kv\<in>set g. \<forall>k. fst kv = GKey k \<longrightarrow>
                    title (snd kv) = k
                  \<and> impactedDevicesCount (snd kv)
                      = sum_list (map row_devices (filter (\<lambda>f. row_key ph f = k) fs))
                  \<and> eventsCount (snd kv)
                      = sum_list (map row_events (filter (\<lambda>f. row_key ph f = k) fs)))))
     \<and> (\<forall>anrs ga. group_anrs L [] anrs = Some ga \<longrightarrow>
          (\<exists>as. map (anr_fields L) anrs = map Some as
             \<and> ((\<forall>a\<in>set as. \<exists>s. fst a = JStr s) \<longrightarrow>
                  map fst ga = first_seen (map fst as)
                  \<and> (\<forall>kv\<in>set ga.
                        affected_users (snd kv)
                          = sum_list (map anr_users (filter (\<lambda>a. fst a = fst kv) as))
                      \<and> event_count (snd kv)
                          = sum_list (map anr_count (filter (\<lambda>a. fst a = fst kv) as))))))"
proof -
  have K: "row_key Anrs (sub, tit, d, e) = tit \<and> row_key Crashes (sub, tit, d, e) = sub
     \<and> row_key Non_fatals (sub, tit, d, e) = sub"
    by (simp add: row_key_def group_key_def)
  have A: "\<exists>fs. map (issue_fields L) rows = map Some fs
         \<and> (starts_with_ios ph \<longrightarrow> map snd g = map (ios_entry ph) fs)
         \<and> (\<not> starts_with_ios ph
              \<and> (\<forall>f\<in>set fs. \<exists>s. row_key ph f = JStr s \<and> (ph \<noteq> Anrs \<longrightarrow> s \<noteq> ''Unknown'')) \<longrightarrow>
              map fst g = map GKey (first_seen (map (row_key ph) fs))
              \<and> (\<forall>kv\<in>set g. \<forall>k. fst kv = GKey k \<longrightarrow>
                    title (snd kv) = k
                  \<and> impactedDevicesCount (snd kv)
                      = sum_list (map row_devices (filter (\<lambda>f. row_key ph f = k) fs))
                  \<and> eventsCount (snd kv)
                      = sum_list (map row_events (filter (\<lambda>f. row_key ph f = k) fs))))"
  proof (cases "starts_with_ios ph")
    case True
    from group_issues_ios[OF assms True] obtain fs where "map (issue_fields L) rows = map Some fs"
      "map snd g = map (ios_entry ph) fs" by auto
    with True show ?thesis by blast
  next
    case False
    from group_issues_foldl[OF assms False] obtain fs where fs: "map (issue_fields L) rows = map Some fs"
      and g: "g = foldl (\<lambda>d f. dict_upsert gkey_eq (GKey (row_key ph f)) (merge_row f) (new_row ph f) d) [] fs"
      by blast
    from issues_grouped[OF g _ False] fs False show ?thesis by blast
  qed
  have B: "\<exists>as. map (anr_fields L) anrs = map Some as
             \<and> ((\<forall>a\<in>set as. \<exists>s. fst a = JStr s) \<longrightarrow>
                  map fst ga = first_seen (map fst as)
                  \<and> (\<forall>kv\<in>set ga.
                        affected_users (snd kv)
                          = sum_list (map anr_users (filter (\<lambda>a. fst a = fst kv) as))
                      \<and> event_count (snd kv)
                          = sum_list (map anr_count (filter (\<lambda>a. fst a = fst kv) as))))"
    if ga: "group_anrs L [] anrs = Some ga" for anrs ga
  proof -
    from group_anrs_foldl[OF ga] obtain as where as: "map (anr_fields L) anrs = map Some as"
      and g: "ga = foldl (\<lambda>d a. dict_upsert key_eq (fst a) (merge_anr a) (new_anr a) d) [] as" by blast
    from anrs_grouped[OF g] as show ?thesis by blast
  qed
  from K A B show ?thesis by blast
qed

lemma issue_row_fields:
  "int_of_str L d = Some dn \<Longrightarrow> int_of_str L e = Some en
     \<Longrightarrow> issue_fields L (issue_row t s d e) = Some (JStr s, JStr t, dn, en)"
  by (simp add: issue_fields_def issue_row_def)

lemma demo_ints [simp]:
  "int_of_str demo_lib ''10'' = Some 10" "int_of_str demo_lib ''50'' = Some 50"
  "int_of_str demo_lib ''5'' = Some 5" "int_of_str demo_lib ''20'' = Some 20"
  "int_of_str demo_lib ''1000'' = Some 1000"
  by (simp_all add: demo_lib_def)

lemma two_rows_fields:
  "map (issue_fields demo_lib) two_rows
     = map Some [(JStr ''NullPointerException'', JStr ''java.lang'', 10, 50),
                 (JStr ''NullPointerException'', JStr ''java.lang'', 5, 20)]"
  by (simp add: two_rows_def issue_row_fields)

lemma two_rows_crashes:
  "group_issues demo_lib Crashes [] two_rows
     = Some [(GKey (JStr ''NullPointerException''),
              \<lparr>title = JStr ''NullPointerException'', original_title = JStr ''java.lang'',
               subtitle = JStr ''NullPointerException'', impactedDevicesCount = 15,
               eventsCount = 70\<rparr>)]"
  by (simp add: two_rows_def group_issue_def issue_row_fields group_key_def display_title_def
      key_eq_def)

theorem issue_rows_grouped_witness:
  "group_issues demo_lib Crashes [] two_rows
     = Some [(GKey (JStr ''NullPointerException''),
              \<lparr>title = JStr ''NullPointerException'', original_title = JStr ''java.lang'',
               subtitle = JStr ''NullPointerException'', impactedDevicesCount = 15,
               eventsCount = 70\<rparr>)]
   \<and> (\<exists>fs. map (issue_fields demo_lib) two_rows = map Some fs
          \<and> [GKey (JStr ''NullPointerException'')] = map GKey (first_seen (map (row_key Crashes) fs)))"
proof -
  let ?g = "[(GKey (JStr ''NullPointerException''),
              \<lparr>title = JStr ''NullPointerException'', original_title = JStr ''java.lang'',
               subtitle = JStr ''NullPointerException'', impactedDevicesCount = 15,
               eventsCount = 70\<rparr>)]"
  from issue_rows_grouped[OF two_rows_crashes]
  obtain fs where fs: "map (issue_fields demo_lib) two_rows = map Some fs"
    and imp: "\<not> starts_with_ios Crashes
              \<and> (\<forall>f\<in>set fs. \<exists>s. row_key Crashes f = JStr s \<and> (Crashes \<noteq> Anrs \<longrightarrow> s \<noteq> ''Unknown'')) \<longrightarrow>
              map fst ?g = map GKey (first_seen (map (row_key Crashes) fs))"
    by blast
  from fs have "map Some fs = map Some [(JStr ''NullPointerException'', JStr ''java.lang'', 10, 50),
                 (JStr ''NullPointerException'', JStr ''java.lang'', 5, 20)]"
    by (simp only: two_rows_fields)
  then have fs2: "fs = [(JStr ''NullPointerException'', JStr ''java.lang'', 10, 50),
                 (JStr ''NullPointerException'', JStr ''java.lang'', 5, 20)]"
    by (rule injD[OF inj_mapI[OF inj_Some]])
  have "\<forall>f\<in>set fs. \<exists>s. row_key Crashes f = JStr s \<and> (Crashes \<noteq> Anrs \<longrightarrow> s \<noteq> ''Unknown'')"
    by (simp add: fs2 row_key_def group_key_def)
  with imp have "map fst ?g = map GKey (first_seen (map (row_key Crashes) fs))" by simp
  with fs two_rows_crashes show ?thesis by auto
qed

text \<open>
  The claim as stated fails in the iOS phases: two rows with one title, 10 and 5
  devices, stay two entries of the iOS list.
\<close>

theorem ios_rows_not_grouped_counterexample:
  "map (\<lambda>x. (name x, impacted_devices x, events x))
     (ios_top_crashes (ios (data (handle_response demo_lib 7 (pc_app_id android_only) 738955
        two_issues ios_crashes_phase))))
   = [(JStr ''java.lang'', 10, 50), (JStr ''java.lang'', 5, 20)]"
proof -
  have g: "grouped_of_response demo_lib Ios_crashes two_issues
     = Some [(IKey ''java.lang'' 0,
              \<lparr>title = JStr ''java.lang'', original_title = JStr ''java.lang'',
               subtitle = JStr ''NullPointerException'', impactedDevicesCount = 10, eventsCount = 50\<rparr>),
             (IKey ''java.lang'' 1,
              \<lparr>title = JStr ''java.lang'', original_title = JStr ''java.lang'',
               subtitle = JStr ''NullPointerException'', impactedDevicesCount = 5, eventsCount = 20\<rparr>)]"
    by (simp add: grouped_of_response_def two_issues_def two_rows_def group_issue_def
        issue_row_fields demo_lib_def[THEN arg_cong[of _ _ str_of]])
  have p: "current_phase ios_crashes_phase = Ios_crashes" "metrics_captured ios_crashes_phase"
    "ios_metrics_captured ios_crashes_phase" "ios_fatal_installs ios_crashes_phase = 0"
    "ios_top_crashes (ios (data ios_crashes_phase)) = []"
    by (simp_all add: ios_crashes_phase_def initial_closure_def initial_data_def)
  have f: "handle_play_console demo_lib pc two_issues
             (handle_dominant_release demo_lib two_issues (handle_p90 demo_lib 738955 two_issues ios_crashes_phase))
           = ios_crashes_phase" for pc
    by (simp add: handle_p90_def handle_dominant_release_def handle_play_console_def p)
  have u: "url two_issues = ''metrics:listFirebaseTopOpenIssues''" by (simp add: two_issues_def)
  show ?thesis
    by (simp add: handle_response_def f handle_reports_def u p handle_top_issues_def issues_guard_def
        g top_issues_def sorted_reverse_def impact_percent_def add_issue_def set_issue_flag_def
        upd_ios_def)
qed

section \<open>Impact percentage\<close>




lemma issue_list_add_issue:
  "issue_list ph' (add_issue ph x s) = issue_list ph' s @ (if ph' = ph \<and> issue_list ph (add_issue ph x s) \<noteq> issue_list ph s then [x] else [])"
  by (auto simp: issue_list_def add_issue_def upd_android_def upd_ios_def)


lemma issue_list_set_issue_flag [simp]: "issue_list ph (set_issue_flag ph' s) = issue_list ph s"
  by (simp add: issue_list_def set_issue_flag_def)











text \<open>
  The float product can fall below the exact one: 29 devices of 100 installs give 28,
  as \<^verbatim>\<open>int(29 / 100 * 100)\<close> does.
\<close>

lemma b64_29_100: "b64 (29 / 100) = Fin (5224175567749775 / 18014398509481984)"
  by (rule b64_eqI[where k = "- 2" and m = 5224175567749775, THEN trans])
     (simp_all add: round_half_even_eqI)

lemma b64_29_100_100:
  "b64 (130604389193744375 / 4503599627370496) = Fin (8162774324609023 / 281474976710656)"
  by (rule b64_eqI[where k = 4 and m = 8162774324609023, THEN trans])
     (simp_all add: round_half_even_eqI)

lemma floor_28: "\<lfloor>8162774324609023 / 281474976710656 :: rat\<rfloor> = 28"
  by (rule floor_unique) simp_all

lemma impact_29_of_100: "impact_percent 29 100 = Some 28"
  by (simp add: impact_percent_def int_truediv_def b64_29_100 b64_29_100_100 floor_28)

section \<open>Crash-free rates of a metrics report\<close>






























section \<open>Launch time\<close>

lemma find_projection_find:
  "\<forall>x\<in>set ps. py_get x ''startTime'' (JStr []) \<noteq> None
     \<Longrightarrow> find_projection L today ps = Some (find (recent L today) ps)"
  by (induction ps) (auto simp: recent_def projection_date_def split: option.splits)

lemma recent_truthy: "recent L today p \<Longrightarrow> py_truthy p"
  by (cases p; cases "case p of JObj kvs \<Rightarrow> kvs | _ \<Rightarrow> []")
     (auto simp: recent_def projection_date_def split: option.splits if_splits)

lemma handle_p90_phase [simp]: "current_phase (handle_p90 L today r s) = current_phase s"
  by (simp add: handle_p90_def upd_android_def split: option.splits)

lemma p90_phase_only:
  assumes "current_phase s = Android_p90_launch" "\<not> contains ''metrics:getMetricsReport'' (url r)"
  shows "handle_response L days pc today r s = handle_p90 L today r s"
  using assms
  by (simp add: handle_response_def handle_dominant_release_def handle_play_console_def
      handle_reports_def handle_top_issues_def issues_guard_def)

text \<open>
  Claim C8, as amended. In the launch-time phase, for a timeline response whose
  projections are dictionaries, the handler takes the first projection in payload order
  whose start date is today or yesterday. Without such a projection, or when that
  projection has fewer than 19 quantiles, the closure is left as it was. With 19
  quantiles or more, and \<^verbatim>\<open>float\<close> accepting the one at index 18, the stored value is
  that float divided by 1000000 and rounded to two decimals, and the flag is set.
\<close>

theorem p90_from_first_recent_projection:
  assumes "current_phase s = Android_p90_launch"
    and "contains ''traces/_as:listTimelines'' (url r)"
    and "\<not> contains ''filter.appVersionValues'' (url r)"
    and "\<not> contains ''metrics:getMetricsReport'' (url r)"
    and "resp_json r = Some j"
    and "py_get j ''timelines'' (JArr []) = Some (JArr (t0 # ts))"
    and "py_get t0 ''projections'' (JArr []) = Some (JArr ps)"
    and "\<forall>x\<in>set ps. py_get x ''startTime'' (JStr []) \<noteq> None"
  shows "(find (recent L today) ps = None \<longrightarrow> handle_response L days pc today r s = s)
       \<and> (\<forall>p pr qs. find (recent L today) ps = Some p
             \<and> py_get p ''projection'' (JObj []) = Some pr
             \<and> py_get pr ''quantiles'' (JArr []) = Some (JArr qs) \<and> length qs < 19
             \<longrightarrow> handle_response L days pc today r s = s)
       \<and> (\<forall>p pr qs x. find (recent L today) ps = Some p
             \<and> py_get p ''projection'' (JObj []) = Some pr
             \<and> py_get pr ''quantiles'' (JArr []) = Some (JArr qs) \<and> 19 \<le> length qs
             \<and> py_float L (qs ! 18) = Some x
             \<longrightarrow> (\<exists>v. fdiv x (Fin 1000000) = Some v
                    \<and> handle_response L days pc today r s = store_p90 (round2 v) s))"
proof -
  have hr: "handle_response L days pc today r s = handle_p90 L today r s"
    by (rule p90_phase_only[OF assms(1,4)])
  have ex: "p90_extract L today r
      = (case find (recent L today) ps of None \<Rightarrow> Some None | Some p \<Rightarrow> p90_of_projection L p)"
    using assms(5-7) by (simp add: p90_extract_def find_projection_find[OF assms(8)])
  have a: "find (recent L today) ps = None \<longrightarrow> handle_p90 L today r s = s"
    by (simp add: handle_p90_def ex)
  have b: "handle_p90 L today r s = s"
    if "find (recent L today) ps = Some p" "py_get p ''projection'' (JObj []) = Some pr"
      "py_get pr ''quantiles'' (JArr []) = Some (JArr qs)" "length qs < 19" for p pr qs
  proof -
    from that(1) have "recent L today p" by (auto simp: find_Some_iff)
    then have "py_truthy p" by (rule recent_truthy)
    with that have "p90_of_projection L p = Some None" by (simp add: p90_of_projection_def)
    with that(1) show ?thesis by (simp add: handle_p90_def ex)
  qed
  have c: "\<exists>v. fdiv x (Fin 1000000) = Some v \<and> handle_p90 L today r s = store_p90 (round2 v) s"
    if "find (recent L today) ps = Some p" "py_get p ''projection'' (JObj []) = Some pr"
      "py_get pr ''quantiles'' (JArr []) = Some (JArr qs)" "19 \<le> length qs"
      "py_float L (qs ! 18) = Some x" for p pr qs x
  proof -
    from that(1) have "recent L today p" by (auto simp: find_Some_iff)
    then have t: "py_truthy p" by (rule recent_truthy)
    obtain v where v: "fdiv x (Fin 1000000) = Some v" by (cases x) simp_all
    from that(4) have i: "py_index (JArr qs) 18 = Some (qs ! 18)" by simp
    have "p90_of_projection L p = Some (Some (round2 v))"
      using that(2,3,4,5) t v i by (simp add: p90_of_projection_def)
    with that(1) assms(1-3) have "handle_p90 L today r s = store_p90 (round2 v) s"
      by (simp add: handle_p90_def ex store_p90_def)
    with v show ?thesis by blast
  qed
  from a b c show ?thesis unfolding hr by blast
qed

lemma projection_of_date:
  "projection_date demo_lib (projection_of ''2024-02-10T00:00:00Z'' qs) = Some 738926"
  "projection_date demo_lib (projection_of ''2024-03-09T00:00:00Z'' qs) = Some 738954"
  "projection_date demo_lib (projection_of ''2024-03-10T00:00:00Z'' qs) = Some 738955"
  by (simp_all add: projection_date_def projection_of_def demo_lib_def)

lemma timeline_parts:
  "url (timeline ps) = ''traces/_as:listTimelines''"
  "resp_json (timeline ps) = Some (JObj [(''timelines'', JArr [JObj [(''projections'', JArr ps)]])])"
  by (simp_all add: timeline_def)

lemma timeline_url:
  "contains ''traces/_as:listTimelines'' (url (timeline ps))"
  "\<not> contains ''filter.appVersionValues'' (url (timeline ps))"
  "\<not> contains ''metrics:getMetricsReport'' (url (timeline ps))"
  by (simp_all add: timeline_def)

lemma projection_of_parts:
  "py_get (projection_of d qs) ''startTime'' (JStr []) = Some (JStr d)"
  "py_get (projection_of d qs) ''projection'' (JObj []) = Some (JObj [(''quantiles'', JArr qs)])"
  by (simp_all add: projection_of_def)

lemma buckets_last: "length (buckets v) = 19" "buckets v ! 18 = JInt v"
  by (simp_all add: buckets_def nth_append)

lemma b64_2000000: "b64 2000000 = Fin 2000000"
  by (rule b64_eqI[where k = 20 and m = 8589934592000000, THEN trans])
     (simp_all add: round_half_even_eqI)

lemma b64_1000000: "b64 1000000 = Fin 1000000"
  by (rule b64_eqI[where k = 19 and m = 8589934592000000, THEN trans])
     (simp_all add: round_half_even_eqI)

lemma b64_2: "b64 2 = Fin 2"
  by (rule b64_eqI[where k = 1 and m = 4503599627370496, THEN trans])
     (simp_all add: round_half_even_eqI)

lemma b64_1: "b64 1 = Fin 1"
  by (rule b64_eqI[where k = 0 and m = 4503599627370496, THEN trans])
     (simp_all add: round_half_even_eqI)

lemma round_200: "round_half_even 200 = 200" "round_half_even 100 = 100"
  using round_half_even_of_int[of 200] round_half_even_of_int[of 100] by simp_all

lemma seconds_2:
  "py_float demo_lib (JInt 2000000) = Some (Fin 2000000)"
  "fdiv (Fin 2000000) (Fin 1000000) = Some (Fin 2)" "round2 (Fin 2) = Fin 2"
  by (simp_all add: float_of_int_def b64_2000000 b64_2 round_200)

lemma seconds_1:
  "py_float demo_lib (JInt 1000000) = Some (Fin 1000000)"
  "fdiv (Fin 1000000) (Fin 1000000) = Some (Fin 1)" "round2 (Fin 1) = Fin 1"
  by (simp_all add: float_of_int_def b64_1000000 b64_1 round_200)

lemma p90_phase_phase: "current_phase p90_phase = Android_p90_launch"
  by (simp add: p90_phase_def)

theorem p90_from_first_recent_projection_witness:
  "handle_response demo_lib 7 (pc_app_id android_only) 738955 two_days p90_phase
     = store_p90 (Fin 2) p90_phase
   \<and> handle_response demo_lib 7 (pc_app_id android_only) 738955 old_day p90_phase = p90_phase
   \<and> handle_response demo_lib 7 (pc_app_id android_only) 738955 short_day p90_phase = p90_phase"
proof -
  let ?y = "projection_of ''2024-03-09T00:00:00Z'' (buckets 2000000)"
  let ?t = "projection_of ''2024-03-10T00:00:00Z'' (buckets 1000000)"
  let ?o = "projection_of ''2024-02-10T00:00:00Z'' (buckets 2000000)"
  let ?h = "projection_of ''2024-03-10T00:00:00Z'' (replicate 18 (JInt 0))"
  have tl: "py_get (JObj [(''timelines'', JArr [JObj [(''projections'', JArr ps)]])]) ''timelines'' (JArr [])
              = Some (JArr (JObj [(''projections'', JArr ps)] # []))" for ps
    by simp
  have pj: "py_get (JObj [(''projections'', JArr ps)]) ''projections'' (JArr []) = Some (JArr ps)" for ps
    by simp
  have f1: "find (recent demo_lib 738955) [?y, ?t] = Some ?y"
    by (simp add: recent_def projection_of_date)
  have f2: "find (recent demo_lib 738955) [?o] = None"
    by (simp add: recent_def projection_of_date)
  have f3: "find (recent demo_lib 738955) [?h] = Some ?h"
    by (simp add: recent_def projection_of_date)
  let ?pr = "JObj [(''quantiles'', JArr (buckets 2000000))]"
  have pre: "find (recent demo_lib 738955) [?y, ?t] = Some ?y
          \<and> py_get ?y ''projection'' (JObj []) = Some ?pr
          \<and> py_get ?pr ''quantiles'' (JArr []) = Some (JArr (buckets 2000000))
          \<and> 19 \<le> length (buckets 2000000)
          \<and> py_float demo_lib (buckets 2000000 ! 18) = Some (Fin 2000000)"
    by (intro conjI, rule f1)
       (simp_all add: projection_of_parts buckets_last float_of_int_def b64_2000000)
  have rd: "\<forall>x\<in>set [?y, ?t]. py_get x ''startTime'' (JStr []) \<noteq> None"
    by (simp add: projection_of_parts)
  from p90_from_first_recent_projection[where s = p90_phase and r = "timeline [?y, ?t]"
        and L = demo_lib and today = 738955 and days = 7 and pc = "pc_app_id android_only"
        and ps = "[?y, ?t]",
        OF p90_phase_phase timeline_url timeline_parts(2) tl pj rd,
        THEN conjunct2, THEN conjunct2, rule_format,
        of ?y ?pr "buckets 2000000" "Fin 2000000", OF pre]
  obtain v where v: "fdiv (Fin 2000000) (Fin 1000000) = Some v"
    and hv: "handle_response demo_lib 7 (pc_app_id android_only) 738955 (timeline [?y, ?t]) p90_phase
                   = store_p90 (round2 v) p90_phase"
    by blast
  from v have "v = Fin 2" by (simp add: b64_2)
  with hv have 1: "handle_response demo_lib 7 (pc_app_id android_only) 738955 two_days p90_phase
     = store_p90 (Fin 2) p90_phase"
    by (simp add: two_days_def b64_2 round_200)
  have rd2: "\<forall>x\<in>set [?o]. py_get x ''startTime'' (JStr []) \<noteq> None"
    by (simp add: projection_of_parts)
  have 2: "handle_response demo_lib 7 (pc_app_id android_only) 738955 old_day p90_phase = p90_phase"
    unfolding old_day_def
    by (rule p90_from_first_recent_projection[where s = p90_phase and r = "timeline [?o]"
        and L = demo_lib and today = 738955 and days = 7 and pc = "pc_app_id android_only"
        and ps = "[?o]",
        OF p90_phase_phase timeline_url timeline_parts(2) tl pj rd2,
        THEN conjunct1, rule_format, OF f2])
  let ?ph = "JObj [(''quantiles'', JArr (replicate 18 (JInt 0)))]"
  have rd3: "\<forall>x\<in>set [?h]. py_get x ''startTime'' (JStr []) \<noteq> None"
    by (simp add: projection_of_parts)
  have pre3: "find (recent demo_lib 738955) [?h] = Some ?h
          \<and> py_get ?h ''projection'' (JObj []) = Some ?ph
          \<and> py_get ?ph ''quantiles'' (JArr []) = Some (JArr (replicate 18 (JInt 0)))
          \<and> length (replicate 18 (JInt 0)) < 19"
    by (intro conjI, rule f3) (simp_all add: projection_of_parts)
  have 3: "handle_response demo_lib 7 (pc_app_id android_only) 738955 short_day p90_phase = p90_phase"
    unfolding short_day_def
    by (rule p90_from_first_recent_projection[where s = p90_phase and r = "timeline [?h]"
        and L = demo_lib and today = 738955 and days = 7 and pc = "pc_app_id android_only"
        and ps = "[?h]",
        OF p90_phase_phase timeline_url timeline_parts(2) tl pj rd3,
        THEN conjunct2, THEN conjunct1, rule_format,
        of ?h ?ph "replicate 18 (JInt 0)", OF pre3])
  from 1 2 3 show ?thesis by (intro conjI)
qed

text \<open>
  The claim as stated fails when yesterday's projection comes first: the handler
  stores its 2 s, although the timeline has a projection dated today, with 1 s.
\<close>

theorem today_not_preferred_counterexample:
  "find_projection demo_lib 738955
       [projection_of ''2024-03-09T00:00:00Z'' (buckets 2000000),
        projection_of ''2024-03-10T00:00:00Z'' (buckets 1000000)]
     = Some (Some (projection_of ''2024-03-09T00:00:00Z'' (buckets 2000000)))
   \<and> spec_select_projection demo_lib 738955
       [projection_of ''2024-03-09T00:00:00Z'' (buckets 2000000),
        projection_of ''2024-03-10T00:00:00Z'' (buckets 1000000)]
     = Some (projection_of ''2024-03-10T00:00:00Z'' (buckets 1000000))
   \<and> p90_of_projection demo_lib (projection_of ''2024-03-10T00:00:00Z'' (buckets 1000000))
     = Some (Some (Fin 1))
   \<and> p90_launch_time_seconds (android (data
        (handle_response demo_lib 7 (pc_app_id android_only) 738955 two_days p90_phase)))
     = Some (Fin 2)"
proof -
  let ?y = "projection_of ''2024-03-09T00:00:00Z'' (buckets 2000000)"
  let ?t = "projection_of ''2024-03-10T00:00:00Z'' (buckets 1000000)"
  have a: "find_projection demo_lib 738955 [?y, ?t] = Some (Some ?y)"
    by (simp add: projection_of_parts demo_lib_def)
  have b: "spec_select_projection demo_lib 738955 [?y, ?t] = Some ?t"
    by (simp add: spec_select_projection_def projection_of_date)
  have q: "py_len (JArr (buckets v)) = Some 19" "py_index (JArr (buckets v)) 18 = Some (JInt v)" for v
    by (simp_all add: buckets_last)
  have t: "py_truthy (projection_of u qs)" for u qs by (simp add: projection_of_def)
  have c: "p90_of_projection demo_lib ?t = Some (Some (Fin 1))"
    by (simp add: p90_of_projection_def t projection_of_parts q float_of_int_def b64_1000000 b64_1 round_200
        del: py_len.simps py_index.simps)
  have e: "p90_of_projection demo_lib ?y = Some (Some (Fin 2))"
    by (simp add: p90_of_projection_def t projection_of_parts q float_of_int_def b64_2000000 b64_2 round_200
        del: py_len.simps py_index.simps)
  have x: "p90_extract demo_lib 738955 two_days = Some (Some (Fin 2))"
    by (simp add: p90_extract_def two_days_def timeline_parts a e del: find_projection.simps)
  have "handle_response demo_lib 7 (pc_app_id android_only) 738955 two_days p90_phase
          = handle_p90 demo_lib 738955 two_days p90_phase"
    by (rule p90_phase_only) (simp_all add: p90_phase_phase two_days_def timeline_url)
  then have "p90_launch_time_seconds (android (data
        (handle_response demo_lib 7 (pc_app_id android_only) 738955 two_days p90_phase)))
     = Some (Fin 2)"
    by (simp add: handle_p90_def p90_phase_phase two_days_def timeline_url x[unfolded two_days_def]
        upd_android_def)
  with a b c show ?thesis by (intro conjI)
qed

end
